(* ===== verification/Go_Prelude.thy ===== *)
theory Go_Prelude
  imports Main "HOL-Library.Word" "HOL-Library.Sublist"
begin

text \<open>
  The part of the Go language and of its standard library that every component of the policy
  engine uses, together with the lemmas about it that the component theories share.

  A Go \<^verbatim>\<open>string\<close> is a sequence of bytes and is modelled by \<^typ>\<open>string\<close>, whose characters
  are the 256 byte values; \<^verbatim>\<open>int64\<close> and \<^verbatim>\<open>uint32\<close> are machine words; a
  \<^verbatim>\<open>time.Time\<close> is the number of nanoseconds since Go's zero time, so that \<^verbatim>\<open>IsZero\<close> is
  equality with 0; an \<^verbatim>\<open>error\<close> is a value of the datatype \<open>gerror\<close>, whose sentinel values stand
  for the package-level error variables that \<^verbatim>\<open>errors.Is\<close> recognises.
\<close>

section \<open>Fact collections\<close>

named_theorems go_simps \<open>evaluation rules for the modelled standard library\<close>
named_theorems store_defs \<open>definitions of the store operations, unfolded by the interface proofs\<close>
named_theorems op_defs \<open>definitions of the service operations\<close>

section \<open>Types\<close>

type_synonym i64 = "64 word"
type_synonym u32 = "32 word"
type_synonym gotime = int
type_synonym duration = i64

datatype gerror =
    Sentinel string
  | ErrorNew string
  | Errorf string gerror
  | NilDereference

text \<open>A Go call that returns a value beside an error: both are visible to the caller.\<close>

type_synonym 'a goret = "'a \<times> gerror option"

text \<open>A Go call that returns the zero value beside a non-nil error.\<close>

type_synonym 'a result = "gerror + 'a"

fun errors_Is :: "gerror \<Rightarrow> gerror \<Rightarrow> bool" where
  "errors_Is (Errorf msg e) target \<longleftrightarrow> Errorf msg e = target \<or> errors_Is e target"
| "errors_Is e target \<longleftrightarrow> e = target"

definition IsZero :: "gotime \<Rightarrow> bool" where
  "IsZero t \<longleftrightarrow> t = 0"

definition time_Add :: "gotime \<Rightarrow> duration \<Rightarrow> gotime" where
  "time_Add t d = t + sint d"

definition time_After :: "gotime \<Rightarrow> gotime \<Rightarrow> bool" where
  "time_After t u \<longleftrightarrow> u < t"

abbreviation (input) "Nanosecond \<equiv> 1 :: duration"
abbreviation (input) "Millisecond \<equiv> 1000000 :: duration"
abbreviation (input) "Second \<equiv> 1000000000 :: duration"

lemmas time_defs = IsZero_def time_Add_def time_After_def

lemma errors_Is_refl [simp]: "errors_Is e e"
  by (cases e) auto

section \<open>Package strings\<close>

definition is_digit :: "char \<Rightarrow> bool" where
  "is_digit c \<longleftrightarrow> c \<in> set ''0123456789''"

definition digit_val :: "char \<Rightarrow> nat" where
  "digit_val c = of_char c - 48"

definition lower_ascii :: "char \<Rightarrow> char" where
  "lower_ascii c = (if (65::nat) \<le> of_char c \<and> of_char c \<le> (90::nat) then char_of (of_char c + (32::nat)) else c)"

definition upper_ascii :: "char \<Rightarrow> char" where
  "upper_ascii c = (if (97::nat) \<le> of_char c \<and> of_char c \<le> (122::nat) then char_of (of_char c - (32::nat)) else c)"

definition HasPrefix :: "string \<Rightarrow> string \<Rightarrow> bool" where
  "HasPrefix s p \<longleftrightarrow> prefix p s"

definition HasSuffix :: "string \<Rightarrow> string \<Rightarrow> bool" where
  "HasSuffix s p \<longleftrightarrow> suffix p s"

text \<open>
  The code points of \<^verbatim>\<open>unicode.IsSpace\<close> in UTF-8: the six ASCII ones, U+0085, U+00A0, U+1680,
  U+2000 to U+200A, U+2028, U+2029, U+202F, U+205F and U+3000.
\<close>

definition space_runes :: "string list" where
  "space_runes =
     map (\<lambda>n::nat. [char_of n]) [9, 10, 11, 12, 13, 32] @
     map (\<lambda>n::nat. [char_of (194::nat), char_of n]) [133, 160] @
     [map char_of [225::nat, 154, 128]] @
     map (\<lambda>n::nat. [char_of (226::nat), char_of (128::nat), char_of n])
       [128, 129, 130, 131, 132, 133, 134, 135, 136, 137, 138, 168, 169, 175] @
     [map char_of [226::nat, 129, 159], map char_of [227::nat, 128, 128]]"

definition strip_one :: "string list \<Rightarrow> string \<Rightarrow> string option" where
  "strip_one rs s = map_option (\<lambda>r. drop (length r) s) (find (\<lambda>r. prefix r s) rs)"

lemma space_runes_nonempty: "r \<in> set space_runes \<Longrightarrow> r \<noteq> []"
  by (auto simp: space_runes_def)

lemma strip_one_shorter:
  assumes "strip_one rs s = Some t" and "[] \<notin> set rs"
  shows "length t < length s"
proof -
  from assms(1) obtain r where r: "find (\<lambda>r. prefix r s) rs = Some r" and t: "t = drop (length r) s"
    by (auto simp: strip_one_def)
  from r have "prefix r s" and "r \<in> set rs"
    by (auto simp: find_Some_iff)
  with assms(2) have "0 < length r" and "length r \<le> length s"
    by (auto simp: prefix_length_le)
  then have "length s - length r < length s" by linarith
  with t show ?thesis by simp
qed

text \<open>Strips the listed prefixes as long as there is one; the length of the text bounds the number of rounds.\<close>

primrec strip_fuel :: "nat \<Rightarrow> string list \<Rightarrow> string \<Rightarrow> string" where
  "strip_fuel 0 rs s = s"
| "strip_fuel (Suc n) rs s = (case strip_one rs s of None \<Rightarrow> s | Some t \<Rightarrow> strip_fuel n rs t)"

definition strip_all :: "string list \<Rightarrow> string \<Rightarrow> string" where
  "strip_all rs s = strip_fuel (length s) rs s"

lemma strip_fuel_none:
  assumes "[] \<notin> set rs"
  shows "length s \<le> n \<Longrightarrow> strip_one rs (strip_fuel n rs s) = None"
proof (induction n arbitrary: s)
  case 0
  then show ?case
    using strip_one_shorter [of rs s, OF _ assms] by (cases "strip_one rs s") auto
next
  case (Suc n)
  show ?case
  proof (cases "strip_one rs s")
    case None
    then show ?thesis by simp
  next
    case (Some t)
    with Suc.prems strip_one_shorter [OF Some assms] have "length t \<le> n" by simp
    with Some Suc.IH show ?thesis by simp
  qed
qed

lemma strip_all_none: "[] \<notin> set rs \<Longrightarrow> strip_one rs (strip_all rs s) = None"
  by (simp add: strip_all_def strip_fuel_none)

definition TrimLeftSpace :: "string \<Rightarrow> string" where
  "TrimLeftSpace s = strip_all space_runes s"

definition TrimRightSpace :: "string \<Rightarrow> string" where
  "TrimRightSpace s = rev (strip_all (map rev space_runes) (rev s))"

definition TrimSpace :: "string \<Rightarrow> string" where
  "TrimSpace s = TrimRightSpace (TrimLeftSpace s)"

lemma strip_all_Nil [simp]: "strip_all rs [] = []"
  by (simp add: strip_all_def)

lemma TrimSpace_Nil [simp]: "TrimSpace [] = []"
  by (simp add: TrimSpace_def TrimLeftSpace_def TrimRightSpace_def)

text \<open>
  \<^verbatim>\<open>strings.ToUpper\<close>, exact on every rune whose upper case is an ASCII letter: the ASCII letters,
  U+0131 (its upper case is \<^verbatim>\<open>I\<close>) and U+017F (its upper case is \<^verbatim>\<open>S\<close>). Every other rune keeps a
  non-ASCII upper case, which no comparison with an ASCII text can see, and is left unchanged.
\<close>

fun ToUpper :: "string \<Rightarrow> string" where
  "ToUpper [] = []"
| "ToUpper [c] = [upper_ascii c]"
| "ToUpper (c # d # s) =
     (if c = char_of (196::nat) \<and> d = char_of (177::nat) then CHR ''I'' # ToUpper s
      else if c = char_of (197::nat) \<and> d = char_of (191::nat) then CHR ''S'' # ToUpper s
      else upper_ascii c # ToUpper (d # s))"

section \<open>Signed 64-bit values\<close>

lemma sint_i64_bounds: "- (2 ^ 63) \<le> sint (x :: i64)" "sint (x :: i64) < 2 ^ 63"
  using sint_ge [of x] sint_lt [of x] by auto

lemma sint_word_of_int_i64: "- (2 ^ 63) \<le> n \<Longrightarrow> n < 2 ^ 63 \<Longrightarrow> sint (word_of_int n :: i64) = n"
  by (simp add: sint_sbintrunc' signed_take_bit_int_eq_self)

lemma sint_i64_inc:
  assumes "sint (x :: i64) < 2 ^ 63 - 1"
  shows "sint (x + 1) = sint x + 1"
proof -
  have "sint (x + 1) = signed_take_bit 63 (sint x + 1)"
    by (simp add: signed_take_bit_int_eq_self_iff sint_word_ariths)
  then show ?thesis
    using assms sint_i64_bounds [of x] by (simp add: signed_take_bit_int_eq_self)
qed

lemma sint_i64_dec:
  assumes "- (2 ^ 63) < sint (x :: i64)"
  shows "sint (x - 1) = sint x - 1"
proof -
  have "sint (x - 1) = signed_take_bit 63 (sint x - 1)"
    by (simp add: sint_word_ariths)
  then show ?thesis
    using assms sint_i64_bounds [of x] by (simp add: signed_take_bit_int_eq_self)
qed

lemma sint_i64_dec_nonneg: "0 \<le> sint (x :: i64) \<Longrightarrow> sint (x - 1) = sint x - 1"
  by (rule sint_i64_dec) simp

end
