(* ===== verification/Go_Float.thy ===== *)
theory Go_Float
  imports Go_Prelude "HOL-Library.Log_Nat" Complex_Main
begin

text \<open>
  Go's \<^verbatim>\<open>float64\<close>: IEEE 754 binary64 values with round-to-nearest-even arithmetic, as far as the
  policy engine computes with them (multiplication, the ordering comparisons, truncation to
  \<^verbatim>\<open>int64\<close>, conversion of constants). A finite value is its sign and its exact magnitude, a rational
  number; the two zeros differ in the sign only. The rounding works on magnitudes and is executable.

  The lemmas give what the component proofs need: rounding is monotone, keeps representable
  magnitudes and yields representable ones, and the comparisons are those of the exact values.
\<close>

section \<open>Values and comparisons\<close>

datatype f64 = NaN | Inf bool | Fin bool rat

fun f64_val :: "bool \<Rightarrow> rat \<Rightarrow> rat" where
  "f64_val s q = (if s then - q else q)"

fun f64_less :: "f64 \<Rightarrow> f64 \<Rightarrow> bool" where
  "f64_less (Fin s q) (Fin t r) \<longleftrightarrow> f64_val s q < f64_val t r"
| "f64_less (Fin s q) (Inf t) \<longleftrightarrow> \<not> t"
| "f64_less (Inf s) (Fin t r) \<longleftrightarrow> s"
| "f64_less (Inf s) (Inf t) \<longleftrightarrow> s \<and> \<not> t"
| "f64_less _ _ \<longleftrightarrow> False"

fun f64_le :: "f64 \<Rightarrow> f64 \<Rightarrow> bool" where
  "f64_le (Fin s q) (Fin t r) \<longleftrightarrow> f64_val s q \<le> f64_val t r"
| "f64_le (Fin s q) (Inf t) \<longleftrightarrow> \<not> t"
| "f64_le (Inf s) (Fin t r) \<longleftrightarrow> s"
| "f64_le (Inf s) (Inf t) \<longleftrightarrow> s \<or> \<not> t"
| "f64_le _ _ \<longleftrightarrow> False"

fun is_nan :: "f64 \<Rightarrow> bool" where
  "is_nan NaN \<longleftrightarrow> True"
| "is_nan _ \<longleftrightarrow> False"

fun is_finite :: "f64 \<Rightarrow> bool" where
  "is_finite (Fin s q) \<longleftrightarrow> True"
| "is_finite _ \<longleftrightarrow> False"

section \<open>Rounding\<close>

definition pow2 :: "int \<Rightarrow> rat" where
  "pow2 e = (if 0 \<le> e then 2 ^ nat e else 1 / 2 ^ nat (- e))"

text \<open>The binary exponent of a positive rational number: \<open>pow2 e \<le> q < pow2 (e + 1)\<close>.\<close>

definition ilog2 :: "rat \<Rightarrow> int" where
  "ilog2 q = (let (a, b) = quotient_of q; e = bitlen a - bitlen b
              in if q < pow2 e then e - 1 else e)"

text \<open>Round half to even.\<close>

definition rne :: "rat \<Rightarrow> int" where
  "rne x = (let f = \<lfloor>x\<rfloor>; d = x - of_int f
            in if d < 1 / 2 then f else if 1 / 2 < d then f + 1 else if even f then f else f + 1)"

text \<open>The exponent of the last place of the binade of a magnitude; subnormals share the least one.\<close>

definition ulp_exp :: "rat \<Rightarrow> int" where
  "ulp_exp q = max (ilog2 q - 52) (- 1074)"

definition round_mag :: "rat \<Rightarrow> rat" where
  "round_mag q = (if q = 0 then 0 else of_int (rne (q / pow2 (ulp_exp q))) * pow2 (ulp_exp q))"

definition round64 :: "bool \<Rightarrow> rat \<Rightarrow> f64" where
  "round64 s q = (let r = round_mag q in if pow2 1024 \<le> r then Inf s else Fin s r)"

text \<open>A constant of the source, converted at compile time.\<close>

definition f64_lit :: "rat \<Rightarrow> f64" where
  "f64_lit q = round64 (q < 0) \<bar>q\<bar>"

fun f64_mult :: "f64 \<Rightarrow> f64 \<Rightarrow> f64" where
  "f64_mult (Fin s q) (Fin t r) = round64 (s \<noteq> t) (q * r)"
| "f64_mult (Fin s q) (Inf t) = (if q = 0 then NaN else Inf (s \<noteq> t))"
| "f64_mult (Inf s) (Fin t r) = (if r = 0 then NaN else Inf (s \<noteq> t))"
| "f64_mult (Inf s) (Inf t) = Inf (s \<noteq> t)"
| "f64_mult _ _ = NaN"

text \<open>
  The conversion \<^verbatim>\<open>int64(f)\<close> truncates towards zero; for a value that an \<^verbatim>\<open>int64\<close> cannot hold the
  language leaves the result to the implementation, which is the parameter \<open>impl\<close>.
\<close>

definition trunc_rat :: "rat \<Rightarrow> int" where
  "trunc_rat x = (if x < 0 then - \<lfloor>- x\<rfloor> else \<lfloor>x\<rfloor>)"

fun int64_of_f64 :: "(f64 \<Rightarrow> i64) \<Rightarrow> f64 \<Rightarrow> i64" where
  "int64_of_f64 impl (Fin s q) =
     (let n = trunc_rat (f64_val s q)
      in if - (2 ^ 63) \<le> n \<and> n < 2 ^ 63 then word_of_int n else impl (Fin s q))"
| "int64_of_f64 impl x = impl x"

section \<open>Well-formed values\<close>

text \<open>The magnitudes of binary64: an integer of at most 53 bits times a power of two in range.\<close>

definition representable :: "rat \<Rightarrow> bool" where
  "representable q \<longleftrightarrow> 0 \<le> q \<and> round_mag q = q \<and> q < pow2 1024"

fun f64_wf :: "f64 \<Rightarrow> bool" where
  "f64_wf (Fin s q) \<longleftrightarrow> representable q"
| "f64_wf _ \<longleftrightarrow> True"

section \<open>Comparisons\<close>

lemma f64_less_nan [simp]: "\<not> f64_less NaN x" "\<not> f64_less x NaN"
  by (cases x; simp)+

lemma f64_le_nan [simp]: "\<not> f64_le NaN x" "\<not> f64_le x NaN"
  by (cases x; simp)+

lemma f64_not_less: "\<not> is_nan x \<Longrightarrow> \<not> is_nan y \<Longrightarrow> \<not> f64_less x y \<longleftrightarrow> f64_le y x"
  by (cases x; cases y) auto

lemma f64_less_imp_le: "f64_less x y \<Longrightarrow> f64_le x y"
  by (cases x; cases y) auto

lemma f64_less_le_trans: "f64_less x y \<Longrightarrow> f64_le y z \<Longrightarrow> f64_less x z"
  by (cases x; cases y; cases z) auto

lemma f64_le_less_trans: "f64_le x y \<Longrightarrow> f64_less y z \<Longrightarrow> f64_less x z"
  by (cases x; cases y; cases z) auto

lemma f64_le_trans: "f64_le x y \<Longrightarrow> f64_le y z \<Longrightarrow> f64_le x z"
  by (cases x; cases y; cases z) auto

lemma f64_less_asym: "f64_less x y \<Longrightarrow> \<not> f64_le y x"
  by (cases x; cases y) auto

section \<open>Powers of two and binary exponents\<close>

lemma pow2_pos [simp]: "0 < pow2 e"
  by (simp add: pow2_def)

lemma pow2_nonneg [simp]: "0 \<le> pow2 e"
  using pow2_pos [of e] by (rule less_imp_le)

lemma pow2_neq_0 [simp]: "pow2 e \<noteq> 0"
  using pow2_pos [of e] by (rule less_imp_neq [symmetric])

lemma pow2_powi: "pow2 e = 2 powi e"
  by (simp add: pow2_def power_int_def inverse_eq_divide power_one_over)

lemma pow2_add: "pow2 (a + b) = pow2 a * pow2 b"
  by (simp add: pow2_powi power_int_add)

lemma pow2_mono: "a \<le> b \<Longrightarrow> pow2 a \<le> pow2 b"
  by (simp add: pow2_powi power_int_increasing)

lemma pow2_less_iff [simp]: "pow2 a < pow2 b \<longleftrightarrow> a < b"
  by (metis linorder_not_less order_le_less pow2_mono pow2_powi power_int_strict_increasing
      one_less_numeral_iff semiring_norm(76))

lemma pow2_diff: "pow2 a / pow2 b = pow2 (a - b)"
  by (simp add: pow2_powi power_int_diff)

lemma pow2_of_nat: "0 \<le> e \<Longrightarrow> pow2 e = of_int (2 ^ nat e)"
  by (simp add: pow2_def)

lemma bitlen_rat_bounds:
  assumes "0 < x"
  shows "pow2 (bitlen x - 1) \<le> of_int x" and "of_int x < pow2 (bitlen x)"
proof -
  from assms have pos: "0 < bitlen x" using bitlen_nonneg [of x] bitlen_eq_zero_iff [of x] by linarith
  have b: "2 ^ nat (bitlen x - 1) \<le> x" "x < 2 ^ nat (bitlen x)"
    using bitlen_bounds [OF assms] by auto
  from b(1) have "(of_int (2 ^ nat (bitlen x - 1)) :: rat) \<le> of_int x"
    by (simp only: of_int_le_iff)
  with pos show "pow2 (bitlen x - 1) \<le> of_int x" by (simp add: pow2_of_nat)
  from b(2) have "(of_int x :: rat) < of_int (2 ^ nat (bitlen x))"
    by (simp only: of_int_less_iff)
  with pos show "of_int x < pow2 (bitlen x)" by (simp add: pow2_of_nat)
qed

lemma ilog2_bounds:
  assumes "0 < q"
  shows "pow2 (ilog2 q) \<le> q" and "q < pow2 (ilog2 q + 1)"
proof -
  obtain a b where ab: "quotient_of q = (a, b)" by (cases "quotient_of q")
  then have q: "q = of_int a / of_int b" and b: "0 < b"
    by (auto simp: quotient_of_div quotient_of_denom_pos)
  with assms have a: "0 < a" by (simp add: zero_less_divide_iff)
  define e where "e = bitlen a - bitlen b"
  have "of_int a < pow2 (bitlen a)" and "pow2 (bitlen b - 1) \<le> of_int b"
    using bitlen_rat_bounds a b by auto
  then have "q < pow2 (bitlen a) / pow2 (bitlen b - 1)"
    unfolding q using a b by (intro frac_less) auto
  then have hi: "q < pow2 (e + 1)"
    by (simp add: pow2_diff e_def algebra_simps)
  have "pow2 (bitlen a - 1) \<le> of_int a" and "of_int b < pow2 (bitlen b)"
    using bitlen_rat_bounds a b by auto
  then have "pow2 (bitlen a - 1) / pow2 (bitlen b) \<le> q"
    unfolding q using a b by (intro frac_le) auto
  then have lo: "pow2 (e - 1) \<le> q"
    by (simp add: pow2_diff e_def algebra_simps)
  have il: "ilog2 q = (if q < pow2 e then e - 1 else e)"
    by (simp add: ilog2_def ab e_def)
  show "pow2 (ilog2 q) \<le> q" "q < pow2 (ilog2 q + 1)"
    using hi lo by (auto simp: il)
qed

lemma ilog2_unique:
  assumes "pow2 e \<le> q" and "q < pow2 (e + 1)"
  shows "ilog2 q = e"
proof -
  have "0 < q" using assms(1) pow2_pos [of e] by linarith
  note il = ilog2_bounds [OF this]
  have "pow2 e < pow2 (ilog2 q + 1)" "pow2 (ilog2 q) < pow2 (e + 1)"
    using assms il by linarith+
  then show ?thesis by simp
qed

lemma ilog2_mono:
  assumes "0 < q" and "q \<le> r"
  shows "ilog2 q \<le> ilog2 r"
proof -
  have "pow2 (ilog2 q) < pow2 (ilog2 r + 1)"
    using ilog2_bounds(1) [OF assms(1)] ilog2_bounds(2) [of r] assms by linarith
  then show ?thesis by simp
qed

lemma ulp_exp_mono: "0 < q \<Longrightarrow> q \<le> r \<Longrightarrow> ulp_exp q \<le> ulp_exp r"
  using ilog2_mono [of q r] by (auto simp: ulp_exp_def)

section \<open>Rounding to an integer\<close>

lemma rne_of_int [simp]: "rne (of_int n) = n"
  by (simp add: rne_def)

lemma rne_floor: "rne x = \<lfloor>x\<rfloor> \<or> rne x = \<lfloor>x\<rfloor> + 1"
  by (auto simp: rne_def Let_def)

lemma rne_mono:
  assumes "x \<le> y"
  shows "rne x \<le> rne y"
proof (cases "\<lfloor>x\<rfloor> = \<lfloor>y\<rfloor>")
  case True
  with assms show ?thesis by (auto simp: rne_def Let_def)
next
  case False
  with assms have "\<lfloor>x\<rfloor> + 1 \<le> \<lfloor>y\<rfloor>"
    using floor_mono [OF assms] by linarith
  then show ?thesis using rne_floor [of x] rne_floor [of y] by linarith
qed

lemma rne_nonneg: "0 \<le> x \<Longrightarrow> 0 \<le> rne x"
  using rne_mono [of 0 x] rne_of_int [of 0] by simp

lemma rne_error: "\<bar>of_int (rne x) - x\<bar> \<le> 1 / 2"
proof -
  have "of_int \<lfloor>x\<rfloor> \<le> x" "x < of_int \<lfloor>x\<rfloor> + 1"
    by linarith+
  then show ?thesis unfolding rne_def Let_def abs_if by (simp split: if_splits) linarith
qed

section \<open>Rounding to a grid\<close>

definition round_grid :: "int \<Rightarrow> rat \<Rightarrow> rat" where
  "round_grid u q = of_int (rne (q / pow2 u)) * pow2 u"

lemma round_mag_grid: "q \<noteq> 0 \<Longrightarrow> round_mag q = round_grid (ulp_exp q) q"
  by (simp add: round_mag_def round_grid_def)

lemma round_grid_mono: "q \<le> r \<Longrightarrow> round_grid u q \<le> round_grid u r"
  by (simp add: round_grid_def rne_mono divide_right_mono)

lemma round_grid_fixes:
  assumes "u \<le> v"
  shows "round_grid u (of_int n * pow2 v) = of_int n * pow2 v"
proof -
  have "pow2 v = pow2 u * pow2 (v - u)"
    using pow2_add [of u "v - u"] by simp
  moreover have "pow2 (v - u) = of_int (2 ^ nat (v - u))"
    using assms by (simp add: pow2_of_nat)
  ultimately have eq: "of_int n * pow2 v = of_int (n * 2 ^ nat (v - u)) * pow2 u"
    by simp
  show ?thesis unfolding eq by (simp add: round_grid_def flip: of_int_mult)
qed

lemma round_grid_pow2: "u \<le> e \<Longrightarrow> round_grid u (pow2 e) = pow2 e"
  using round_grid_fixes [of u e 1] by simp

lemma round_mag_nonneg: "0 \<le> q \<Longrightarrow> 0 \<le> round_mag q"
  by (simp add: round_mag_def rne_nonneg)

lemma round_mag_0 [simp]: "round_mag 0 = 0"
  by (simp add: round_mag_def)

lemma round_mag_mono:
  assumes "0 \<le> q" and "q \<le> r"
  shows "round_mag q \<le> round_mag r"
proof (cases "q = 0")
  case True
  with assms show ?thesis by (simp add: round_mag_nonneg)
next
  case False
  with assms have q: "0 < q" and r: "0 < r" by auto
  have le: "ulp_exp q \<le> ulp_exp r" using q assms(2) by (rule ulp_exp_mono)
  show ?thesis
  proof (cases "ulp_exp q = ulp_exp r")
    case True
    with q r assms(2) show ?thesis by (simp add: round_mag_grid round_grid_mono)
  next
    case False
    define p where "p = pow2 (ilog2 r)"
    from False le have less: "ulp_exp q < ulp_exp r" by simp
    then have ur: "ulp_exp r = ilog2 r - 52" and "ilog2 q < ilog2 r"
      by (auto simp: ulp_exp_def split: if_splits)
    then have "pow2 (ilog2 q + 1) \<le> p"
      unfolding p_def by (intro pow2_mono) simp
    then have qp: "q \<le> p" using ilog2_bounds(2) [OF q] by linarith
    have pr: "p \<le> r" unfolding p_def by (rule ilog2_bounds(1) [OF r])
    have grids: "round_grid (ulp_exp q) p = p" "round_grid (ulp_exp r) p = p"
      using less ur by (auto simp: p_def intro!: round_grid_pow2)
    show ?thesis
      using round_grid_mono [OF qp, of "ulp_exp q"] round_grid_mono [OF pr, of "ulp_exp r"] grids q r
      by (simp add: round_mag_grid)
  qed
qed

text \<open>An integer multiple of a power of two that is at least the last place is kept.\<close>

lemma round_mag_fixes: "ulp_exp (of_int n * pow2 v) \<le> v \<Longrightarrow> round_mag (of_int n * pow2 v) = of_int n * pow2 v"
  by (cases "n = 0") (simp_all add: round_mag_grid round_grid_fixes)

lemma round_mag_pow2:
  assumes "- 1074 \<le> e"
  shows "round_mag (pow2 e) = pow2 e"
proof -
  have "ilog2 (pow2 e) = e" by (rule ilog2_unique) auto
  with assms show ?thesis
    using round_mag_fixes [of 1 e] by (simp add: ulp_exp_def)
qed

lemma round_mag_idem:
  assumes "0 \<le> q"
  shows "round_mag (round_mag q) = round_mag q"
proof (cases "round_mag q = 0")
  case True
  then show ?thesis by simp
next
  case False
  with assms have q: "0 < q" by (cases "q = 0") auto
  define E where "E = max (ilog2 q) (- 1022)"
  define r where "r = round_mag q"
  have u: "ulp_exp q = E - 52" by (simp add: ulp_exp_def E_def)
  have "pow2 (ilog2 q + 1) \<le> pow2 (E + 1)" by (rule pow2_mono) (simp add: E_def)
  then have "q \<le> pow2 (E + 1)" using ilog2_bounds(2) [OF q] by linarith
  then have "r \<le> round_grid (E - 52) (pow2 (E + 1))"
    using q by (simp add: r_def round_mag_grid u round_grid_mono)
  then have le: "r \<le> pow2 (E + 1)" by (simp add: round_grid_pow2)
  have r: "0 < r" using False round_mag_nonneg [OF assms] by (simp add: r_def)
  show ?thesis
  proof (cases "r = pow2 (E + 1)")
    case True
    then show ?thesis using round_mag_pow2 [of "E + 1"] by (simp add: r_def E_def)
  next
    case False
    with le have "r < pow2 (E + 1)" by simp
    with ilog2_bounds(1) [OF r] have "pow2 (ilog2 r) < pow2 (E + 1)" by linarith
    then have "ulp_exp r \<le> E - 52" by (simp add: ulp_exp_def E_def)
    moreover have "r = of_int (rne (q / pow2 (E - 52))) * pow2 (E - 52)"
      using q by (simp add: r_def round_mag_def u)
    ultimately show ?thesis
      using round_mag_fixes [of "rne (q / pow2 (E - 52))" "E - 52"] by (simp add: r_def)
  qed
qed

lemma round_mag_of_int:
  assumes "0 \<le> n" and "n < 2 ^ 53"
  shows "round_mag (of_int n) = of_int n"
proof (cases "n = 0")
  case True
  then show ?thesis by simp
next
  case False
  with assms(1) have pos: "(0::rat) < of_int n" by simp
  have "(of_int n :: rat) < of_int (2 ^ 53)" using assms(2) by (simp only: of_int_less_iff)
  also have "of_int (2 ^ 53) = pow2 53" by (simp add: pow2_def)
  finally have "pow2 (ilog2 (of_int n)) < pow2 53"
    using ilog2_bounds(1) [OF pos] by linarith
  then have "ulp_exp (of_int n) \<le> 0" by (simp add: ulp_exp_def)
  then show ?thesis using round_mag_fixes [of n 0] by (simp add: pow2_def)
qed

lemma round_mag_error:
  assumes "0 < q"
  shows "\<bar>round_mag q - q\<bar> \<le> pow2 (ulp_exp q) / 2"
proof -
  define p where "p = pow2 (ulp_exp q)"
  have "round_mag q - q = (of_int (rne (q / p)) - q / p) * p"
    using assms by (simp add: round_mag_def p_def left_diff_distrib)
  then have "\<bar>round_mag q - q\<bar> = \<bar>of_int (rne (q / p)) - q / p\<bar> * p"
    by (simp add: abs_mult p_def)
  also have "\<dots> \<le> 1 / 2 * p"
    by (rule mult_right_mono [OF rne_error]) (simp add: p_def)
  finally show ?thesis by (simp add: p_def)
qed

text \<open>Evaluation of a rounding from the binary exponent and the rounded significand.\<close>

lemma rne_eqI: "\<bar>x - of_int n\<bar> < 1 / 2 \<Longrightarrow> rne x = n"
  using rne_error [of x] by linarith

lemma round_mag_eval:
  assumes "pow2 e \<le> q" and "q < pow2 (e + 1)" and "- 1022 \<le> e"
    and "\<bar>q / pow2 (e - 52) - of_int n\<bar> < 1 / 2"
  shows "round_mag q = of_int n * pow2 (e - 52)"
proof -
  have "ulp_exp q = e - 52"
    using ilog2_unique [OF assms(1,2)] assms(3) by (simp add: ulp_exp_def)
  moreover have "q \<noteq> 0" using assms(1) pow2_pos [of e] by linarith
  ultimately show ?thesis by (simp add: round_mag_def rne_eqI [OF assms(4)])
qed

section \<open>Arithmetic keeps values well-formed\<close>

lemma round64_wf: "0 \<le> q \<Longrightarrow> f64_wf (round64 s q)"
  by (simp add: round64_def Let_def representable_def round_mag_idem round_mag_nonneg)

lemma f64_lit_wf: "f64_wf (f64_lit q)"
  by (simp add: f64_lit_def round64_wf)

lemma f64_mult_wf: "f64_wf x \<Longrightarrow> f64_wf y \<Longrightarrow> f64_wf (f64_mult x y)"
  by (cases x; cases y) (auto simp: representable_def intro!: round64_wf)

lemma round64_not_nan [simp]: "round64 s q \<noteq> NaN" "\<not> is_nan (round64 s q)"
  by (auto simp: round64_def Let_def)

lemma pow2_1024_gt: "(2::rat) ^ 53 < pow2 1024"
proof -
  have "(2::rat) ^ 53 = pow2 53" by (simp add: pow2_def)
  also have "pow2 53 < pow2 1024" by (simp only: pow2_less_iff)
  finally show ?thesis .
qed

lemma representable_of_int:
  assumes "0 \<le> n" and "n < 2 ^ 53"
  shows "representable (of_int n)"
proof -
  have "(of_int n :: rat) < of_int (2 ^ 53)" using assms(2) by (simp only: of_int_less_iff)
  then have "(of_int n :: rat) < 2 ^ 53" by simp
  then have "of_int n < pow2 1024" using pow2_1024_gt by linarith
  with assms show ?thesis by (simp add: representable_def round_mag_of_int)
qed

lemma f64_lit_of_int:
  assumes "0 \<le> n" and "n < 2 ^ 53"
  shows "f64_lit (of_int n) = Fin False (of_int n)"
  using representable_of_int [OF assms] assms(1)
  by (simp add: f64_lit_def round64_def representable_def)

lemma f64_lit_numeral [simp]:
  "(numeral n :: int) < 2 ^ 53 \<Longrightarrow> f64_lit (numeral n) = Fin False (numeral n)"
  using f64_lit_of_int [of "numeral n"] by simp

text \<open>Scaling a positive value by a factor of at most one never increases it.\<close>

lemma f64_mult_le:
  assumes "f64_wf x" and "f64_less (Fin False 0) x" and "is_finite x"
    and "0 \<le> c" and "c \<le> 1"
  shows "f64_le (f64_mult x (Fin False c)) x"
proof (cases x)
  case (Fin s q)
  with assms have q: "0 < q" "representable q" "\<not> s"
    by (auto simp: representable_def split: if_splits)
  with assms have "q * c \<le> q" "0 \<le> q * c" by (auto simp: mult_left_le)
  then have "round_mag (q * c) \<le> q"
    using round_mag_mono [of "q * c" q] q(2) by (simp add: representable_def)
  then show ?thesis using Fin q by (auto simp: round64_def Let_def representable_def)
qed (use assms in auto)

end
