(* ===== verification/Go_Strconv.thy ===== *)
theory Go_Strconv
  imports Go_Float
begin

text \<open>
  Package \<^verbatim>\<open>strconv\<close> as the engine uses it: \<^verbatim>\<open>ParseFloat(s, 64)\<close>, \<^verbatim>\<open>Atoi\<close> and \<^verbatim>\<open>Itoa\<close>, and the
  \<^verbatim>\<open>String\<close> method of \<^verbatim>\<open>time.Duration\<close>. The float syntax is Go's: an optional sign, a decimal or
  hexadecimal mantissa with an optional exponent, digit-separating underscores, and the special values.
  The exact value of the text is rounded once, as the correctly rounding conversion of the library does.

  The lemmas show that the parsed values are well-formed \<^verbatim>\<open>float64\<close>s and that printing and parsing
  integers round-trips.
\<close>

section \<open>Printing integers\<close>

definition digit_char :: "nat \<Rightarrow> char" where
  "digit_char d = char_of (48 + d)"

text \<open>The decimal digits of a non-negative integer.\<close>

function dec_digits :: "int \<Rightarrow> string" where
  "dec_digits n = (if n < 10 then [digit_char (nat n)] else dec_digits (n div 10) @ [digit_char (nat (n mod 10))])"
  by pat_completeness auto
termination
  by (relation "measure nat") auto

declare dec_digits.simps [simp del]

definition Itoa :: "int \<Rightarrow> string" where
  "Itoa n = (if n < 0 then CHR ''-'' # dec_digits (- n) else dec_digits n)"

section \<open>Parsing integers\<close>

definition err_syntax :: gerror where
  "err_syntax = Errorf ''strconv: parsing'' (Sentinel ''strconv.ErrSyntax'')"

definition err_range :: gerror where
  "err_range = Errorf ''strconv: parsing'' (Sentinel ''strconv.ErrRange'')"

fun split_sign :: "string \<Rightarrow> bool \<times> string" where
  "split_sign (c # s) = (if c = CHR ''+'' then (False, s) else if c = CHR ''-'' then (True, s) else (False, c # s))"
| "split_sign [] = (False, [])"

definition digits_val :: "nat \<Rightarrow> string \<Rightarrow> nat" where
  "digits_val acc s = foldl (\<lambda>n c. 10 * n + digit_val c) acc s"

definition Atoi :: "string \<Rightarrow> int goret" where
  "Atoi s = (let (neg, ds) = split_sign s; n = int (digits_val 0 ds)
     in if ds = [] \<or> \<not> list_all is_digit ds then (0, Some err_syntax)
        else if neg \<and> 2 ^ 63 < n then (- (2 ^ 63), Some err_range)
        else if \<not> neg \<and> 2 ^ 63 \<le> n then (2 ^ 63 - 1, Some err_range)
        else (if neg then - n else n, None))"

section \<open>Parsing floating-point numbers\<close>

definition parse_special :: "string \<Rightarrow> f64 option" where
  "parse_special s = (let t = map lower_ascii s; (neg, u) = split_sign t
     in if u = ''inf'' \<or> u = ''infinity'' then Some (Inf neg)
        else if t = ''nan'' then Some NaN else None)"

definition is_hex_letter :: "char \<Rightarrow> bool" where
  "is_hex_letter c \<longleftrightarrow> lower_ascii c \<in> set ''abcdef''"

text \<open>The mantissa loop: digits seen, mantissa, digits after the point, and the unread text.\<close>

fun scan_mantissa :: "bool \<Rightarrow> bool \<Rightarrow> bool \<Rightarrow> nat \<Rightarrow> nat \<Rightarrow> string \<Rightarrow> bool \<times> nat \<times> nat \<times> string" where
  "scan_mantissa hex sawdot sawdigits m k [] = (sawdigits, m, k, [])"
| "scan_mantissa hex sawdot sawdigits m k (c # s) =
     (let base = (if hex then 16 else 10); k' = (if sawdot then Suc k else k)
      in if c = CHR ''_'' then scan_mantissa hex sawdot sawdigits m k s
         else if c = CHR ''.'' then
           (if sawdot then (sawdigits, m, k, c # s) else scan_mantissa hex True sawdigits m k s)
         else if is_digit c then scan_mantissa hex sawdot True (base * m + digit_val c) k' s
         else if hex \<and> is_hex_letter c then
           scan_mantissa hex sawdot True (base * m + (of_char (lower_ascii c) - 97 + 10)) k' s
         else (sawdigits, m, k, c # s))"

text \<open>The exponent loop stops accumulating once the value has reached 10000.\<close>

fun scan_exponent :: "nat \<Rightarrow> string \<Rightarrow> nat \<times> string" where
  "scan_exponent e [] = (e, [])"
| "scan_exponent e (c # s) =
     (if c = CHR ''_'' then scan_exponent e s
      else if is_digit c then scan_exponent (if e < 10000 then 10 * e + digit_val c else e) s
      else (e, c # s))"

text \<open>The optional exponent of the unread text: its value and what follows; \<open>None\<close> is malformed.\<close>

definition read_exponent :: "bool \<Rightarrow> string \<Rightarrow> (int \<times> string) option" where
  "read_exponent hex s =
     (case s of
        c # t \<Rightarrow>
          if lower_ascii c = (if hex then CHR ''p'' else CHR ''e'') then
            (let (neg, u) = split_sign t
             in if u = [] \<or> \<not> is_digit (hd u) then None
                else let (e, r) = scan_exponent 0 u in Some (if neg then - int e else int e, r))
          else if hex then None else Some (0, s)
      | [] \<Rightarrow> if hex then None else Some (0, s))"

datatype seen = SawStart | SawDigit | SawUnderscore | SawOther

fun underscore_ok :: "bool \<Rightarrow> seen \<Rightarrow> string \<Rightarrow> bool" where
  "underscore_ok hex saw [] \<longleftrightarrow> saw \<noteq> SawUnderscore"
| "underscore_ok hex saw (c # s) \<longleftrightarrow>
     (if is_digit c \<or> hex \<and> is_hex_letter c then underscore_ok hex SawDigit s
      else if c = CHR ''_'' then saw = SawDigit \<and> underscore_ok hex SawUnderscore s
      else saw \<noteq> SawUnderscore \<and> underscore_ok hex SawOther s)"

definition underscoreOK :: "string \<Rightarrow> bool" where
  "underscoreOK s = (let t = snd (split_sign s)
     in case t of
          c # d # u \<Rightarrow>
            if c = CHR ''0'' \<and> lower_ascii d \<in> set ''box''
            then underscore_ok (lower_ascii d = CHR ''x'') SawDigit u
            else underscore_ok False SawStart t
        | _ \<Rightarrow> underscore_ok False SawStart t)"

definition hex_prefix :: "string \<Rightarrow> bool" where
  "hex_prefix s \<longleftrightarrow> 2 < length s \<and> s ! 0 = CHR ''0'' \<and> lower_ascii (s ! 1) = CHR ''x''"

text \<open>The sign and the exact magnitude denoted by the whole text.\<close>

definition readFloat :: "string \<Rightarrow> (bool \<times> rat) option" where
  "readFloat s = (let (neg, t) = split_sign s; hex = hex_prefix t;
       (ok, m, k, r) = scan_mantissa hex False False 0 0 (if hex then drop 2 t else t)
     in if \<not> ok then None
        else case read_exponent hex r of
               None \<Rightarrow> None
             | Some (e, r') \<Rightarrow>
                 if r' \<noteq> [] \<or> \<not> underscoreOK s then None
                 else Some (neg, if hex then of_nat m * pow2 (e - 4 * int k)
                                 else of_nat m * (if int k \<le> e then 10 ^ nat (e - int k)
                                                  else 1 / 10 ^ nat (int k - e))))"

definition ParseFloat :: "string \<Rightarrow> f64 goret" where
  "ParseFloat s =
     (case parse_special s of
        Some v \<Rightarrow> (v, None)
      | None \<Rightarrow>
          (case readFloat s of
             None \<Rightarrow> (Fin False 0, Some err_syntax)
           | Some (neg, q) \<Rightarrow>
               (let v = round64 neg q in (v, if is_finite v then None else Some err_range))))"

section \<open>time.Duration.String\<close>

text \<open>
  \<open>fmt_frac\<close> prints the low \<open>prec\<close> decimal digits as a fraction without trailing zeros, and
  nothing at all when they are all zero.
\<close>

fun fmt_frac_digits :: "nat \<Rightarrow> int \<Rightarrow> bool \<Rightarrow> string \<Rightarrow> string" where
  "fmt_frac_digits 0 v pr out = (if pr then CHR ''.'' # out else out)"
| "fmt_frac_digits (Suc p) v pr out =
     (let d = v mod 10; pr' = (pr \<or> d \<noteq> 0)
      in fmt_frac_digits p (v div 10) pr' (if pr' then digit_char (nat d) # out else out))"

definition fmt_frac :: "int \<Rightarrow> nat \<Rightarrow> string" where
  "fmt_frac v prec = fmt_frac_digits prec v False []"

definition micro_sign :: string where
  "micro_sign = map char_of [194::nat, 181]"

definition duration_abs_string :: "int \<Rightarrow> string" where
  "duration_abs_string u =
     (if u = 0 then ''0s''
      else if u < 1000 then dec_digits u @ ''ns''
      else if u < 1000000 then dec_digits (u div 1000) @ fmt_frac u 3 @ micro_sign @ ''s''
      else if u < 1000000000 then dec_digits (u div 1000000) @ fmt_frac u 6 @ ''ms''
      else
        (let sec = u div 1000000000; mins = sec div 60; hours = mins div 60;
             tail = dec_digits (sec mod 60) @ fmt_frac u 9 @ ''s''
         in if mins = 0 then tail
            else if hours = 0 then dec_digits (mins mod 60) @ ''m'' @ tail
            else dec_digits hours @ ''h'' @ dec_digits (mins mod 60) @ ''m'' @ tail))"

definition duration_String :: "duration \<Rightarrow> string" where
  "duration_String d =
     (if sint d < 0 then CHR ''-'' # duration_abs_string (- sint d) else duration_abs_string (sint d))"

section \<open>Lemmas\<close>

lemma digit_chars_digit: "list_all (\<lambda>d. is_digit (digit_char d)) [0..<10]"
  by code_simp

lemma digit_char_digit [simp]: "d < 10 \<Longrightarrow> is_digit (digit_char d)"
  using digit_chars_digit by (auto simp: list_all_iff)

lemma digit_val_digit_char [simp]: "d < 10 \<Longrightarrow> digit_val (digit_char d) = d"
  by (simp add: digit_val_def digit_char_def)

lemma digits_val_append: "digits_val acc (s @ t) = digits_val (digits_val acc s) t"
  by (simp add: digits_val_def)

lemma dec_digits_nonempty [simp]: "dec_digits n \<noteq> []"
  by (subst dec_digits.simps) simp

lemma dec_digits_digits: "0 \<le> n \<Longrightarrow> list_all is_digit (dec_digits n)"
proof (induction n rule: dec_digits.induct)
  case (1 n)
  then show ?case
    by (cases "n < 10") (auto simp: dec_digits.simps [of n] nat_less_iff)
qed

lemma digits_val_dec_digits: "0 \<le> n \<Longrightarrow> int (digits_val 0 (dec_digits n)) = n"
proof (induction n rule: dec_digits.induct)
  case (1 n)
  show ?case
  proof (cases "n < 10")
    case True
    with "1.prems" show ?thesis by (simp add: dec_digits.simps [of n] digits_val_def nat_less_iff)
  next
    case False
    with "1" have IH: "int (digits_val 0 (dec_digits (n div 10))) = n div 10" by simp
    have "nat (n mod 10) < 10" by (simp add: nat_less_iff)
    with False IH show ?thesis
      by (simp add: dec_digits.simps [of n] digits_val_append digits_val_def)
  qed
qed

lemma dec_digits_hd: "0 \<le> n \<Longrightarrow> is_digit (hd (dec_digits n))"
  using dec_digits_digits [of n] by (cases "dec_digits n") auto

lemma split_sign_digits: "s \<noteq> [] \<Longrightarrow> is_digit (hd s) \<Longrightarrow> split_sign s = (False, s)"
  by (cases s) (auto simp: is_digit_def)

lemma Atoi_Itoa:
  assumes "- (2 ^ 63) \<le> n" and "n < 2 ^ 63"
  shows "Atoi (Itoa n) = (n, None)"
proof (cases "n < 0")
  case True
  with assms show ?thesis
    by (simp add: Atoi_def Itoa_def dec_digits_digits digits_val_dec_digits)
next
  case False
  with assms show ?thesis
    by (simp add: Atoi_def Itoa_def dec_digits_digits digits_val_dec_digits split_sign_digits dec_digits_hd)
qed

lemma Atoi_range: "Atoi s = (n, None) \<Longrightarrow> - (2 ^ 63) \<le> n \<and> n < 2 ^ 63"
  by (auto simp: Atoi_def Let_def split: prod.splits if_splits)

lemma readFloat_nonneg: "readFloat s = Some (neg, q) \<Longrightarrow> 0 \<le> q"
  by (auto simp: readFloat_def Let_def split: prod.splits if_splits option.splits)

lemma ParseFloat_wf: "f64_wf (fst (ParseFloat s))"
proof (cases "readFloat s")
  case None
  then show ?thesis
    using representable_of_int [of 0]
    by (auto simp: ParseFloat_def parse_special_def Let_def split: option.splits prod.splits if_splits)
next
  case (Some r)
  then show ?thesis
    using readFloat_nonneg [of s]
    by (auto simp: ParseFloat_def parse_special_def Let_def round64_wf split: option.splits prod.splits if_splits)
qed

text \<open>A text that is no special value is parsed, without an error, to a finite value only.\<close>

lemma ParseFloat_finite: "ParseFloat s = (v, None) \<Longrightarrow> parse_special s = None \<Longrightarrow> is_finite v"
  by (auto simp: ParseFloat_def Let_def split: option.splits if_splits prod.splits)

end
