(* ===== verification/Caps.thy ===== *)
theory Caps
  imports Go_Strconv
begin

text \<open>
  Package \<^verbatim>\<open>internal/caps\<close>: the cap rules and their configuration, the lookup of the applicable rule,
  the per-transaction cap check with its near-cap band, the high-value 2FA rule and the conversion of
  amounts to USD. A \<^verbatim>\<open>*Rule\<close> is an optional rule, an environment is a function from names to texts in
  which an unset variable is empty.

  The lemmas characterise the rule that is found, show that the check is monotone in the amount and
  that its outcomes partition the amounts, and evaluate the seed rules.
\<close>

section \<open>Rules and configuration\<close>

type_synonym tier = string
type_synonym env = "string \<Rightarrow> string"

abbreviation Tier1 :: tier where
  "Tier1 \<equiv> ''tier_1''"

abbreviation Tier2 :: tier where
  "Tier2 \<equiv> ''tier_2''"

abbreviation Tier3 :: tier where
  "Tier3 \<equiv> ''tier_3''"

abbreviation TierInstitutional :: tier where
  "TierInstitutional \<equiv> ''institutional''"

record cap_rule =
  RuleID :: string
  RuleTier :: tier
  RuleRail :: string
  RuleAsset :: string
  RuleWindow :: string
  USDCap :: f64
  OnExceed :: string
  USDThreshold :: f64
  Requires2FA :: bool

record caps_config =
  DefaultDailyCapUSD :: f64
  DefaultTXCapUSD :: f64
  NearCapThreshold :: f64
  Rules :: "cap_rule list"

abbreviation f64_zero :: f64 where
  "f64_zero \<equiv> Fin False 0"

definition zero_rule :: cap_rule where
  "zero_rule = \<lparr>RuleID = [], RuleTier = [], RuleRail = [], RuleAsset = [], RuleWindow = [],
     USDCap = f64_zero, OnExceed = [], USDThreshold = f64_zero, Requires2FA = False\<rparr>"

definition SeedRules :: "cap_rule list" where
  "SeedRules =
    [zero_rule\<lparr>RuleID := ''cap.daily.tier_1'', RuleTier := Tier1, RuleWindow := ''1d'', USDCap := f64_lit 2500, OnExceed := ''deny''\<rparr>,
     zero_rule\<lparr>RuleID := ''cap.tx.tier_1'', RuleTier := Tier1, RuleWindow := ''tx'', USDCap := f64_lit 1000, OnExceed := ''deny''\<rparr>,
     zero_rule\<lparr>RuleID := ''cap.daily.tier_2'', RuleTier := Tier2, RuleWindow := ''1d'', USDCap := f64_lit 25000, OnExceed := ''deny''\<rparr>,
     zero_rule\<lparr>RuleID := ''cap.tx.tier_2'', RuleTier := Tier2, RuleWindow := ''tx'', USDCap := f64_lit 5000, OnExceed := ''deny''\<rparr>,
     zero_rule\<lparr>RuleID := ''cap.daily.tier_3'', RuleTier := Tier3, RuleWindow := ''1d'', USDCap := f64_lit 100000, OnExceed := ''deny''\<rparr>,
     zero_rule\<lparr>RuleID := ''cap.tx.tier_3'', RuleTier := Tier3, RuleWindow := ''tx'', USDCap := f64_lit 25000, OnExceed := ''deny''\<rparr>,
     zero_rule\<lparr>RuleID := ''cap.daily.institutional'', RuleTier := TierInstitutional, RuleWindow := ''1d'', USDCap := f64_lit 1000000, OnExceed := ''deny''\<rparr>,
     zero_rule\<lparr>RuleID := ''cap.tx.institutional'', RuleTier := TierInstitutional, RuleWindow := ''tx'', USDCap := f64_lit 250000, OnExceed := ''deny''\<rparr>,
     zero_rule\<lparr>RuleID := ''cap.tx.card.high_value_2fa'', RuleRail := ''card'', RuleWindow := ''tx'', USDThreshold := f64_lit 1000, Requires2FA := True, OnExceed := ''manual_review''\<rparr>]"

definition envFloat :: "env \<Rightarrow> string \<Rightarrow> f64 \<Rightarrow> f64" where
  "envFloat getenv key def =
     (let v = getenv key
      in if v \<noteq> [] then (case ParseFloat v of (n, None) \<Rightarrow> n | (_, Some _) \<Rightarrow> def) else def)"

definition caps_DefaultConfig :: "env \<Rightarrow> caps_config" where
  "caps_DefaultConfig getenv =
     \<lparr>DefaultDailyCapUSD = envFloat getenv ''DEFAULT_DAILY_CAP_USD'' (f64_lit 10000),
      DefaultTXCapUSD = envFloat getenv ''DEFAULT_TX_CAP_USD'' (f64_lit 2500),
      NearCapThreshold = f64_lit (9 / 10),
      Rules = SeedRules\<rparr>"

section \<open>Operations\<close>

record cap_result =
  Exceeded :: bool
  NearCap :: bool
  CapAppliedRule :: "cap_rule option"
  CapDecision :: string
  CapReason :: string

definition matchRule :: "caps_config \<Rightarrow> tier \<Rightarrow> string \<Rightarrow> string \<Rightarrow> string \<Rightarrow> cap_rule option" where
  "matchRule c tier rail asset window =
     (case find (\<lambda>r. RuleTier r = tier \<and> RuleWindow r = window \<and> RuleRail r = [] \<and> RuleAsset r = []) (Rules c) of
        Some r \<Rightarrow> Some r
      | None \<Rightarrow>
     (case find (\<lambda>r. RuleRail r = rail \<and> RuleWindow r = window \<and> RuleTier r = []) (Rules c) of
        Some r \<Rightarrow> Some r
      | None \<Rightarrow>
        find (\<lambda>r. RuleAsset r = asset \<and> RuleWindow r = window \<and> RuleTier r = [] \<and> RuleRail r = []) (Rules c)))"

definition window_default :: "caps_config \<Rightarrow> string \<Rightarrow> f64" where
  "window_default c window =
     (if window = ''1d'' then DefaultDailyCapUSD c
      else if window = ''tx'' then DefaultTXCapUSD c
      else f64_zero)"

definition effectiveCap :: "caps_config \<Rightarrow> cap_rule option \<Rightarrow> string \<Rightarrow> f64" where
  "effectiveCap c rule window =
     (case rule of
        Some r \<Rightarrow> if f64_less f64_zero (USDCap r) then USDCap r else window_default c window
      | None \<Rightarrow> window_default c window)"

definition caps_Evaluate :: "caps_config \<Rightarrow> tier \<Rightarrow> string \<Rightarrow> string \<Rightarrow> string \<Rightarrow> f64 \<Rightarrow> cap_result" where
  "caps_Evaluate c tier rail asset window amountUSD =
     (let rule = matchRule c tier rail asset window; cap = effectiveCap c rule window;
          res = \<lparr>Exceeded = False, NearCap = False, CapAppliedRule = rule, CapDecision = [], CapReason = []\<rparr>
      in if f64_le cap f64_zero then res\<lparr>CapAppliedRule := None\<rparr>
         else if f64_less cap amountUSD then
           res\<lparr>Exceeded := True,
               CapDecision := (case rule of
                   Some r \<Rightarrow> if OnExceed r = ''manual_review'' then ''manual_review'' else ''deny''
                 | None \<Rightarrow> ''deny''),
               CapReason := ''cap_'' @ window @ ''_exceeded''\<rparr>
         else if f64_le (f64_mult cap (NearCapThreshold c)) amountUSD then
           res\<lparr>NearCap := True, CapDecision := ''manual_review'', CapReason := ''near_cap_'' @ window\<rparr>
         else res)"

definition HighValue2FARequired :: "caps_config \<Rightarrow> string \<Rightarrow> f64 \<Rightarrow> bool" where
  "HighValue2FARequired c rail amountUSD \<longleftrightarrow>
     list_ex (\<lambda>r. RuleRail r = rail \<and> Requires2FA r \<and> f64_le (USDThreshold r) amountUSD) (Rules c)"

definition FXToUSD :: "f64 \<Rightarrow> string \<Rightarrow> f64 \<Rightarrow> f64" where
  "FXToUSD amount currency fxRateToUSD =
     (let c = ToUpper (TrimSpace currency)
      in if c = ''USD'' \<or> f64_le fxRateToUSD f64_zero then amount else f64_mult amount fxRateToUSD)"

section \<open>The rule that applies\<close>

definition tier_rule :: "tier \<Rightarrow> string \<Rightarrow> cap_rule \<Rightarrow> bool" where
  "tier_rule t w r \<longleftrightarrow> RuleTier r = t \<and> RuleWindow r = w \<and> RuleRail r = [] \<and> RuleAsset r = []"

definition rail_rule :: "string \<Rightarrow> string \<Rightarrow> cap_rule \<Rightarrow> bool" where
  "rail_rule rail w r \<longleftrightarrow> RuleRail r = rail \<and> RuleWindow r = w \<and> RuleTier r = []"

definition asset_rule :: "string \<Rightarrow> string \<Rightarrow> cap_rule \<Rightarrow> bool" where
  "asset_rule asset w r \<longleftrightarrow> RuleAsset r = asset \<and> RuleWindow r = w \<and> RuleTier r = [] \<and> RuleRail r = []"

lemmas rule_defs = tier_rule_def rail_rule_def asset_rule_def

lemma matchRule_alt:
  "matchRule c t rail asset w =
     (case find (tier_rule t w) (Rules c) of
        Some r \<Rightarrow> Some r
      | None \<Rightarrow> (case find (rail_rule rail w) (Rules c) of
                   Some r \<Rightarrow> Some r | None \<Rightarrow> find (asset_rule asset w) (Rules c)))"
  unfolding matchRule_def tier_rule_def rail_rule_def asset_rule_def ..

lemma matchRule_window: "matchRule c t rail asset w = Some r \<Longrightarrow> r \<in> set (Rules c) \<and> RuleWindow r = w"
  by (auto simp: matchRule_alt rule_defs find_Some_iff split: option.splits)

lemma find_None_set: "find P xs = None \<longleftrightarrow> (\<forall>x\<in>set xs. \<not> P x)"
  by (auto simp: find_None_iff)

lemma find_Some_set: "find P xs = Some x \<Longrightarrow> x \<in> set xs \<and> P x"
  by (auto simp: find_Some_iff)

text \<open>
  A rule for the user's tier takes precedence: whenever some rule names the tier and the window and
  neither a rail nor an asset, the rule that is applied is the first such rule, whatever the rail and
  the asset of the transaction are.
\<close>

theorem matchRule_tier_precedence:
  assumes "\<exists>r\<in>set (Rules c). tier_rule t w r"
  shows "matchRule c t rail asset w = find (tier_rule t w) (Rules c)
    \<and> (\<exists>r. matchRule c t rail asset w = Some r \<and> tier_rule t w r)"
proof -
  from assms obtain r where r: "find (tier_rule t w) (Rules c) = Some r"
    using find_None_set [of "tier_rule t w" "Rules c"] by (cases "find (tier_rule t w) (Rules c)") auto
  then have "tier_rule t w r" by (auto simp: find_Some_iff)
  with r show ?thesis by (simp add: matchRule_alt)
qed

text \<open>
  No rule is applied exactly when no tier rule, no rail rule and no asset rule of the configuration
  matches; a rule that is applied is one of the configured rules of the window in question.
\<close>

theorem matchRule_None_iff:
  "matchRule c t rail asset w = None \<longleftrightarrow>
     (\<forall>r\<in>set (Rules c). \<not> tier_rule t w r \<and> \<not> rail_rule rail w r \<and> \<not> asset_rule asset w r)"
  by (auto simp: matchRule_alt find_None_set dest: find_Some_set split: option.splits)

text \<open>
  A transaction without a rail is matched by the first rule of the window that names neither a tier
  nor a rail, whatever asset that rule is for: the cap of one asset is applied to every other asset.
\<close>

theorem matchRule_empty_rail_any_asset:
  assumes "\<forall>x\<in>set (Rules c). \<not> tier_rule t w x"
    and "find (\<lambda>x. RuleTier x = [] \<and> RuleRail x = [] \<and> RuleWindow x = w) (Rules c) = Some r"
  shows "matchRule c t [] asset w = Some r"
proof -
  have "find (rail_rule [] w) (Rules c) = Some r"
    using assms(2) by (simp add: rail_rule_def [abs_def] conj_comms)
  moreover have "find (tier_rule t w) (Rules c) = None"
    using assms(1) by (simp add: find_None_set)
  ultimately show ?thesis by (simp add: matchRule_alt)
qed

section \<open>The cap check\<close>

lemma caps_Evaluate_simps:
  defines "cap \<equiv> \<lambda>c t rail asset w. effectiveCap c (matchRule c t rail asset w) w"
  shows "Exceeded (caps_Evaluate c t rail asset w a) \<longleftrightarrow>
      \<not> f64_le (cap c t rail asset w) f64_zero \<and> f64_less (cap c t rail asset w) a"
    and "NearCap (caps_Evaluate c t rail asset w a) \<longleftrightarrow>
      \<not> f64_le (cap c t rail asset w) f64_zero \<and> \<not> f64_less (cap c t rail asset w) a
      \<and> f64_le (f64_mult (cap c t rail asset w) (NearCapThreshold c)) a"
  by (auto simp: caps_Evaluate_def Let_def cap_def)

lemma caps_Evaluate_decision:
  assumes "res = caps_Evaluate c t rail asset w a"
  shows "Exceeded res \<Longrightarrow> CapReason res = ''cap_'' @ w @ ''_exceeded'' \<and> CapDecision res \<in> {''deny'', ''manual_review''}"
    and "NearCap res \<Longrightarrow> CapReason res = ''near_cap_'' @ w \<and> CapDecision res = ''manual_review''"
    and "\<not> Exceeded res \<Longrightarrow> \<not> NearCap res \<Longrightarrow> CapDecision res = []"
  unfolding assms by (auto simp: caps_Evaluate_def Let_def split: option.splits if_splits)

text \<open>The outcomes of a cap check from the most lenient to the strictest.\<close>

datatype cap_outcome = Clear | Near | Over

instantiation cap_outcome :: linorder
begin

definition less_eq_cap_outcome :: "cap_outcome \<Rightarrow> cap_outcome \<Rightarrow> bool" where
  "less_eq_cap_outcome a b \<longleftrightarrow> (case a of Clear \<Rightarrow> True | Near \<Rightarrow> b \<noteq> Clear | Over \<Rightarrow> b = Over)"

definition less_cap_outcome :: "cap_outcome \<Rightarrow> cap_outcome \<Rightarrow> bool" where
  "less_cap_outcome a b \<longleftrightarrow> a \<le> b \<and> a \<noteq> b"

instance
proof
  fix a b c :: cap_outcome
  show "a < b \<longleftrightarrow> a \<le> b \<and> \<not> b \<le> a" "a \<le> b \<or> b \<le> a"
    by (cases a; cases b; simp add: less_eq_cap_outcome_def less_cap_outcome_def)+
  show "a \<le> b \<Longrightarrow> b \<le> c \<Longrightarrow> a \<le> c" by (cases a; cases b; cases c; simp add: less_eq_cap_outcome_def)
  show "a \<le> a" by (cases a) (simp_all add: less_eq_cap_outcome_def)
  show "a \<le> b \<Longrightarrow> b \<le> a \<Longrightarrow> a = b" by (cases a; cases b; simp add: less_eq_cap_outcome_def)
qed

end

definition cap_severity :: "cap_result \<Rightarrow> cap_outcome" where
  "cap_severity res = (if Exceeded res then Over else if NearCap res then Near else Clear)"

text \<open>
  The cap check is monotone: raising the amount never turns an exceeded cap into a near-cap or a
  clear result, nor a near-cap result into a clear one, for every configuration and rule lookup.
\<close>

theorem caps_Evaluate_mono:
  assumes "f64_le a b"
  shows "cap_severity (caps_Evaluate c t rail asset w a) \<le> cap_severity (caps_Evaluate c t rail asset w b)"
  using assms f64_less_le_trans [of _ a b] f64_le_trans [of _ a b]
  by (auto simp: cap_severity_def caps_Evaluate_simps less_eq_cap_outcome_def)

text \<open>
  C26: For a positive finite cap and a threshold fraction between 0 and 1, the three outcomes partition
  the amounts: exceeded means above the cap, near-cap means from the scaled cap up to the cap, and a
  clear result means below the scaled cap and hence strictly below the cap itself.
\<close>

theorem caps_Evaluate_partition:
  assumes "cap = effectiveCap c (matchRule c t rail asset w) w"
    and "f64_wf cap" and "is_finite cap" and "f64_less f64_zero cap"
    and "NearCapThreshold c = Fin False q" and "0 \<le> q" and "q \<le> 1" and "\<not> is_nan a"
    and "res = caps_Evaluate c t rail asset w a"
  shows "(Exceeded res \<longleftrightarrow> f64_less cap a)
    \<and> (NearCap res \<longleftrightarrow> f64_le (f64_mult cap (Fin False q)) a \<and> f64_le a cap)
    \<and> (\<not> Exceeded res \<and> \<not> NearCap res \<longleftrightarrow> f64_less a (f64_mult cap (Fin False q)))
    \<and> (\<not> Exceeded res \<and> \<not> NearCap res \<longrightarrow> f64_less a cap)"
proof -
  have pos: "\<not> f64_le cap f64_zero" using assms(4) by (rule f64_less_asym)
  have thr: "f64_le (f64_mult cap (Fin False q)) cap"
    using assms(2,4,3,6,7) by (rule f64_mult_le)
  have nan: "\<not> is_nan cap" "\<not> is_nan (f64_mult cap (Fin False q))"
    using assms(3) by (cases cap; simp)+
  note not_less = f64_not_less [OF nan(1) assms(8)] f64_not_less [OF assms(8) nan(2)]
  have ex: "Exceeded res \<longleftrightarrow> f64_less cap a"
    using pos by (simp add: assms(1,9) caps_Evaluate_simps)
  have near: "NearCap res \<longleftrightarrow> f64_le (f64_mult cap (Fin False q)) a \<and> f64_le a cap"
    using pos not_less(1) by (auto simp: assms(1,5,9) caps_Evaluate_simps)
  have clear: "\<not> Exceeded res \<and> \<not> NearCap res \<longleftrightarrow> f64_less a (f64_mult cap (Fin False q))"
    unfolding ex near using not_less thr f64_le_less_trans f64_less_asym f64_less_imp_le f64_le_trans by blast
  from ex near clear show ?thesis using thr f64_less_le_trans by blast
qed

section \<open>The seed rules\<close>

lemma caps_DefaultConfig_Rules [simp]: "Rules (caps_DefaultConfig getenv) = SeedRules"
  by (simp add: caps_DefaultConfig_def)

lemma envFloat_unset [simp]: "getenv key = [] \<Longrightarrow> envFloat getenv key def = def"
  by (simp add: envFloat_def)

lemma round_mag_nine_tenths: "round_mag (9 / 10) = 8106479329266893 / 9007199254740992"
  using round_mag_eval [of "-1" "9 / 10" 8106479329266893] by (simp add: pow2_def)

lemma near_cap_threshold: "NearCapThreshold (caps_DefaultConfig getenv) = Fin False (8106479329266893 / 9007199254740992)"
  by (simp add: caps_DefaultConfig_def f64_lit_def round64_def round_mag_nine_tenths pow2_def)

lemma seed_tier_find:
  "find (tier_rule t ''tx'') SeedRules =
     (if t = Tier1 then Some (SeedRules ! Suc 0) else if t = Tier2 then Some (SeedRules ! 3)
      else if t = Tier3 then Some (SeedRules ! 5) else if t = TierInstitutional then Some (SeedRules ! 7)
      else None)"
  by (simp add: SeedRules_def tier_rule_def zero_rule_def)

lemma seed_rail_find:
  "rail \<noteq> [] \<Longrightarrow> find (rail_rule rail ''tx'') SeedRules = (if rail = ''card'' then Some (SeedRules ! 8) else None)"
  by (simp add: SeedRules_def rail_rule_def zero_rule_def)

lemma seed_asset_find: "find (asset_rule asset ''tx'') SeedRules = None"
  by (simp add: SeedRules_def asset_rule_def zero_rule_def)

lemma seed_rail_empty: "find (rail_rule [] ''tx'') SeedRules = None"
  by (simp add: SeedRules_def rail_rule_def zero_rule_def)

lemmas seed_find = seed_tier_find seed_rail_find seed_rail_empty seed_asset_find

definition seed_tx_cap :: "(tier \<times> rat) list" where
  "seed_tx_cap = [(Tier1, 1000), (Tier2, 5000), (Tier3, 25000), (TierInstitutional, 250000)]"

lemma seed_nth:
  "SeedRules ! Suc 0 = zero_rule\<lparr>RuleID := ''cap.tx.tier_1'', RuleTier := Tier1, RuleWindow := ''tx'', USDCap := f64_lit 1000, OnExceed := ''deny''\<rparr>"
  "SeedRules ! 3 = zero_rule\<lparr>RuleID := ''cap.tx.tier_2'', RuleTier := Tier2, RuleWindow := ''tx'', USDCap := f64_lit 5000, OnExceed := ''deny''\<rparr>"
  "SeedRules ! 5 = zero_rule\<lparr>RuleID := ''cap.tx.tier_3'', RuleTier := Tier3, RuleWindow := ''tx'', USDCap := f64_lit 25000, OnExceed := ''deny''\<rparr>"
  "SeedRules ! 7 = zero_rule\<lparr>RuleID := ''cap.tx.institutional'', RuleTier := TierInstitutional, RuleWindow := ''tx'', USDCap := f64_lit 250000, OnExceed := ''deny''\<rparr>"
  "SeedRules ! 8 = zero_rule\<lparr>RuleID := ''cap.tx.card.high_value_2fa'', RuleRail := ''card'', RuleWindow := ''tx'', USDThreshold := f64_lit 1000, Requires2FA := True, OnExceed := ''manual_review''\<rparr>"
  by (simp_all only: SeedRules_def nth_Cons_0 nth_Cons_Suc One_nat_def eval_nat_numeral BitM.simps)

lemma seed_rule_fields:
  "RuleID (SeedRules ! Suc 0) = ''cap.tx.tier_1''" "USDCap (SeedRules ! Suc 0) = Fin False 1000" "OnExceed (SeedRules ! Suc 0) = ''deny''"
  "RuleID (SeedRules ! 3) = ''cap.tx.tier_2''" "USDCap (SeedRules ! 3) = Fin False 5000" "OnExceed (SeedRules ! 3) = ''deny''"
  "RuleID (SeedRules ! 5) = ''cap.tx.tier_3''" "USDCap (SeedRules ! 5) = Fin False 25000" "OnExceed (SeedRules ! 5) = ''deny''"
  "RuleID (SeedRules ! 7) = ''cap.tx.institutional''" "USDCap (SeedRules ! 7) = Fin False 250000" "OnExceed (SeedRules ! 7) = ''deny''"
  "RuleID (SeedRules ! 8) = ''cap.tx.card.high_value_2fa''" "USDCap (SeedRules ! 8) = f64_zero" "OnExceed (SeedRules ! 8) = ''manual_review''"
  by (simp_all add: seed_nth zero_rule_def)

lemma seed_known_tier_rule:
  "(t, cap) \<in> set seed_tx_cap \<Longrightarrow>
     \<exists>r. find (tier_rule t ''tx'') SeedRules = Some r \<and> RuleID r = ''cap.tx.'' @ t
         \<and> USDCap r = Fin False cap \<and> 0 < cap \<and> OnExceed r = ''deny''"
  by (auto simp: seed_tx_cap_def seed_tier_find seed_rule_fields)

lemma seed_unknown_tier_rule:
  "t \<notin> fst ` set seed_tx_cap \<Longrightarrow> find (tier_rule t ''tx'') SeedRules = None"
  by (auto simp: seed_tx_cap_def seed_tier_find)

text \<open>
  With the seed rules, a transaction of a known tier is checked against that tier's own
  per-transaction cap whatever its rail and asset: above the cap the decision is to deny, and the rule
  reported is the tier's rule.
\<close>

theorem seed_known_tier:
  assumes "Rules c = SeedRules" and "(t, cap) \<in> set seed_tx_cap"
    and "res = caps_Evaluate c t rail asset ''tx'' a"
  shows "map_option RuleID (CapAppliedRule res) = Some (''cap.tx.'' @ t)
    \<and> (Exceeded res \<longleftrightarrow> f64_less (Fin False cap) a)
    \<and> (Exceeded res \<longrightarrow> CapDecision res = ''deny'')"
proof -
  from seed_known_tier_rule [OF assms(2)] obtain r where
    "find (tier_rule t ''tx'') SeedRules = Some r" "RuleID r = ''cap.tx.'' @ t"
    "USDCap r = Fin False cap" "0 < cap" "OnExceed r = ''deny''" by blast
  then show ?thesis unfolding assms(3)
    by (simp add: caps_Evaluate_def matchRule_alt assms(1) effectiveCap_def Let_def)
qed

text \<open>
  With the seed rules, a transaction of a tier that no rule names is held against the default
  per-transaction cap, and on the card rail the rule found is the 2FA rule: exceeding the cap by any
  amount is then routed to manual review and never denied by the cap check.
\<close>

theorem seed_unknown_tier_card:
  assumes "Rules c = SeedRules" and "t \<notin> fst ` set seed_tx_cap"
    and "f64_less (DefaultTXCapUSD c) a" and "f64_less f64_zero (DefaultTXCapUSD c)"
    and "res = caps_Evaluate c t ''card'' asset ''tx'' a"
  shows "Exceeded res \<and> CapDecision res = ''manual_review''
    \<and> map_option RuleID (CapAppliedRule res) = Some ''cap.tx.card.high_value_2fa''"
  using assms(3) f64_less_asym [OF assms(4)] unfolding assms(5)
  by (simp add: caps_Evaluate_def matchRule_alt assms(1) seed_unknown_tier_rule [OF assms(2)] seed_rail_find
      seed_rule_fields effectiveCap_def window_default_def Let_def)

text \<open>
  The high-value 2FA requirement of the seed rules holds exactly for the card rail from 1000 USD on.
\<close>

theorem seed_2fa_required:
  assumes "Rules c = SeedRules"
  shows "HighValue2FARequired c rail a \<longleftrightarrow> rail = ''card'' \<and> f64_le (Fin False 1000) a"
  by (auto simp: HighValue2FARequired_def assms SeedRules_def zero_rule_def)

section \<open>Conversion to USD\<close>

lemma FXToUSD_wf: "f64_wf a \<Longrightarrow> f64_wf r \<Longrightarrow> f64_wf (FXToUSD a cur r)"
  by (simp add: FXToUSD_def f64_mult_wf Let_def)

text \<open>
  Converting to USD keeps the amount unchanged when the currency is USD in any capitalisation and
  with any surrounding white space, and also when the quoted rate is zero or negative; otherwise the
  result is the rounded product, and the conversion of well-formed values is well-formed.
\<close>

theorem FXToUSD_cases:
  "(ToUpper (TrimSpace cur) = ''USD'' \<or> f64_le r f64_zero \<longrightarrow> FXToUSD a cur r = a)
    \<and> (ToUpper (TrimSpace cur) \<noteq> ''USD'' \<and> f64_less f64_zero r \<longrightarrow> FXToUSD a cur r = f64_mult a r)
    \<and> (f64_wf a \<and> f64_wf r \<longrightarrow> f64_wf (FXToUSD a cur r))"
  using f64_less_asym [of f64_zero r] by (auto simp: FXToUSD_def Let_def f64_mult_wf)

section \<open>Instances\<close>

abbreviation (input) default_caps :: caps_config where
  "default_caps \<equiv> caps_DefaultConfig (\<lambda>_. [])"

lemma default_caps_simps:
  "DefaultTXCapUSD default_caps = Fin False 2500" "DefaultDailyCapUSD default_caps = Fin False 10000"
  by (simp_all add: caps_DefaultConfig_def)

lemma seed_tier2_rule: "\<exists>r\<in>set SeedRules. tier_rule Tier2 ''tx'' r"
  by (simp add: SeedRules_def zero_rule_def tier_rule_def)

theorem matchRule_tier_precedence_witness:
  "map_option RuleID (matchRule default_caps Tier2 ''card'' ''BTC'' ''tx'') = Some ''cap.tx.tier_2''"
  using matchRule_tier_precedence [of default_caps Tier2 "''tx''" "''card''" "''BTC''"] seed_tier2_rule
  by (simp add: seed_tier_find seed_rule_fields)

theorem matchRule_None_iff_witness:
  "matchRule default_caps ''gold'' ''sepa'' ''BTC'' ''tx'' = None"
  using matchRule_None_iff [of default_caps "''gold''" "''sepa''" "''BTC''" "''tx''"]
  by (simp add: SeedRules_def zero_rule_def rule_defs)

definition btc_rule :: cap_rule where
  "btc_rule = zero_rule\<lparr>RuleID := ''cap.tx.btc'', RuleAsset := ''BTC'', RuleWindow := ''tx'', USDCap := f64_lit 100, OnExceed := ''deny''\<rparr>"

theorem matchRule_empty_rail_any_asset_witness:
  "matchRule (default_caps\<lparr>Rules := [btc_rule]\<rparr>) Tier1 [] ''USDC'' ''tx'' = Some btc_rule"
  by (rule matchRule_empty_rail_any_asset) (simp_all add: btc_rule_def zero_rule_def tier_rule_def)

theorem caps_Evaluate_mono_witness:
  "cap_severity (caps_Evaluate default_caps Tier1 ''card'' ''BTC'' ''tx'' (Fin False 950))
     \<le> cap_severity (caps_Evaluate default_caps Tier1 ''card'' ''BTC'' ''tx'' (Fin False 1001))"
  by (rule caps_Evaluate_mono) simp

lemma default_tier1_cap: "effectiveCap default_caps (matchRule default_caps Tier1 rail asset ''tx'') ''tx'' = Fin False 1000"
  by (simp add: matchRule_alt seed_tier_find effectiveCap_def seed_rule_fields)

lemma round_mag_900: "round_mag (1000 * (8106479329266893 / 9007199254740992)) = 900"
  using round_mag_eval [of 9 "1000 * (8106479329266893 / 9007199254740992)" "900 * 2 ^ 43"] by (simp add: pow2_def)

lemma round64_900: "round64 False (1000 * (8106479329266893 / 9007199254740992)) = Fin False 900"
  unfolding round64_def round_mag_900 by (simp add: pow2_def)

lemma f64_wf_1000: "f64_wf (Fin False 1000)"
  using representable_of_int [of 1000] by simp

theorem caps_Evaluate_partition_witness:
  "NearCap (caps_Evaluate default_caps Tier1 ''card'' ''BTC'' ''tx'' (Fin False 900))
    \<and> \<not> NearCap (caps_Evaluate default_caps Tier1 ''card'' ''BTC'' ''tx'' (Fin False 899))"
proof -
  note part = caps_Evaluate_partition [OF default_tier1_cap [symmetric] f64_wf_1000 _ _ near_cap_threshold _ _ _ refl]
  have mult: "f64_mult (Fin False 1000) (Fin False (8106479329266893 / 9007199254740992)) = Fin False 900"
    using round64_900 by simp
  show ?thesis
    using part [of "Fin False 900" "''card''" "''BTC''"] part [of "Fin False 899" "''card''" "''BTC''"] unfolding mult by simp
qed

theorem seed_known_tier_witness:
  "CapDecision (caps_Evaluate default_caps Tier2 ''card'' ''BTC'' ''tx'' (Fin False 30000)) = ''deny''"
  using seed_known_tier [OF caps_DefaultConfig_Rules [of "\<lambda>_. []"] _ refl, of Tier2 5000 "''card''" "''BTC''" "Fin False 30000"]
  by (simp add: seed_tx_cap_def)

theorem seed_unknown_tier_card_witness:
  "CapDecision (caps_Evaluate default_caps ''gold'' ''card'' ''BTC'' ''tx'' (Fin False 1000000)) = ''manual_review''"
  using seed_unknown_tier_card [OF caps_DefaultConfig_Rules [of "\<lambda>_. []"] _ _ _ refl, of "''gold''" "Fin False 1000000" "''BTC''"]
  by (simp add: seed_tx_cap_def default_caps_simps)

theorem seed_2fa_required_witness:
  "HighValue2FARequired default_caps ''card'' (Fin False 1000) \<and> \<not> HighValue2FARequired default_caps ''sepa'' (Fin False 1000)"
  using seed_2fa_required [OF caps_DefaultConfig_Rules [of "\<lambda>_. []"]] by simp

lemma trim_usd: "ToUpper (TrimSpace '' usd '') = ''USD''"
  by code_simp

theorem FXToUSD_cases_witness: "FXToUSD (Fin False 20) '' usd '' (Fin False 3) = Fin False 20"
  using FXToUSD_cases [of "'' usd ''" "Fin False 3" "Fin False 20"] trim_usd by simp

end
