(* ===== verification/Velocity.thy ===== *)
theory Velocity
  imports Caps
begin

text \<open>
  Package \<^verbatim>\<open>internal/velocity\<close>: the windows and their configuration, the counter interface and the
  in-memory counter. The counter's map of pointers to entries is a map to entries, its clock is the
  instant passed to each call, and its mutex makes every call one step.

  The locale \<open>velocity_counter\<close> states what the interface promises (the value seen by \<^verbatim>\<open>Get\<close> after
  each operation, for the same and for other counters); it is interpreted on the in-memory counter.
\<close>

section \<open>Windows\<close>

type_synonym window = duration

definition WindowMinute :: window where "WindowMinute = 60 * Second"
definition WindowHour :: window where "WindowHour = 3600 * Second"
definition WindowDay :: window where "WindowDay = 24 * (3600 * Second)"

definition Suffix :: "window \<Rightarrow> string" where
  "Suffix w =
     (if w = WindowMinute then ''60s''
      else if w = WindowHour then ''1h''
      else if w = WindowDay then ''1d''
      else duration_String w)"

record velocity_config =
  WindowMinSec :: int
  WindowHourSec :: int
  WindowDaySec :: int

definition envInt :: "env \<Rightarrow> string \<Rightarrow> int \<Rightarrow> int" where
  "envInt getenv key def =
     (let v = getenv key
      in if v \<noteq> [] then (case Atoi v of (n, None) \<Rightarrow> n | (_, Some _) \<Rightarrow> def) else def)"

definition velocity_DefaultConfig :: "env \<Rightarrow> velocity_config" where
  "velocity_DefaultConfig getenv =
     \<lparr>WindowMinSec = envInt getenv ''VELOCITY_WINDOW_MIN_SEC'' 60,
      WindowHourSec = envInt getenv ''VELOCITY_WINDOW_HOUR_SEC'' 3600,
      WindowDaySec = envInt getenv ''VELOCITY_WINDOW_DAY_SEC'' 86400\<rparr>"

definition WindowsFromConfig :: "velocity_config \<Rightarrow> window \<times> window \<times> window" where
  "WindowsFromConfig cfg =
     (word_of_int (WindowMinSec cfg) * Second, word_of_int (WindowHourSec cfg) * Second,
      word_of_int (WindowDaySec cfg) * Second)"

definition velocity_key :: "string \<Rightarrow> window \<Rightarrow> string" where
  "velocity_key userID w = ''vel:'' @ userID @ '':'' @ Suffix w"

section \<open>The counter interface\<close>

record 's counter_ops =
  Increment :: "string \<Rightarrow> window \<Rightarrow> gotime \<Rightarrow> 's \<Rightarrow> i64 goret \<times> 's"
  Rollback :: "string \<Rightarrow> window \<Rightarrow> gotime \<Rightarrow> 's \<Rightarrow> i64 goret \<times> 's"
  CounterGet :: "string \<Rightarrow> window \<Rightarrow> gotime \<Rightarrow> 's \<Rightarrow> i64 goret"

section \<open>The in-memory counter\<close>

record mem_entry =
  entry_value :: i64
  expiresAt :: gotime

record memory_counter =
  counter_mem :: "string \<rightharpoonup> mem_entry"

abbreviation ErrNegativeCounter :: gerror where
  "ErrNegativeCounter \<equiv> Sentinel ''velocity counter would be negative''"

definition NewMemoryCounter :: memory_counter where
  "NewMemoryCounter = \<lparr>counter_mem = Map.empty\<rparr>"

definition memory_Increment :: "string \<Rightarrow> window \<Rightarrow> gotime \<Rightarrow> memory_counter \<Rightarrow> i64 goret \<times> memory_counter" where
  "memory_Increment userID w now c =
     (let k = velocity_key userID w;
          fresh = \<lparr>entry_value = 0, expiresAt = time_Add now w\<rparr>;
          e = (case counter_mem c k of
                 None \<Rightarrow> fresh
               | Some e \<Rightarrow> if time_After now (expiresAt e) then fresh else e);
          e' = e\<lparr>entry_value := entry_value e + 1, expiresAt := time_Add now w\<rparr>
      in ((entry_value e', None), c\<lparr>counter_mem := (counter_mem c)(k \<mapsto> e')\<rparr>))"

definition memory_Rollback :: "string \<Rightarrow> window \<Rightarrow> gotime \<Rightarrow> memory_counter \<Rightarrow> i64 goret \<times> memory_counter" where
  "memory_Rollback userID w now c =
     (let k = velocity_key userID w
      in case counter_mem c k of
           None \<Rightarrow> ((0, None), c)
         | Some e \<Rightarrow>
             if time_After now (expiresAt e) then ((0, None), c)
             else let v = entry_value e - 1
                  in if sint v < 0
                     then ((0, Some ErrNegativeCounter), c\<lparr>counter_mem := (counter_mem c)(k \<mapsto> e\<lparr>entry_value := 0\<rparr>)\<rparr>)
                     else ((v, None), c\<lparr>counter_mem := (counter_mem c)(k \<mapsto> e\<lparr>entry_value := v\<rparr>)\<rparr>))"

definition memory_Get :: "string \<Rightarrow> window \<Rightarrow> gotime \<Rightarrow> memory_counter \<Rightarrow> i64 goret" where
  "memory_Get userID w now c =
     (case counter_mem c (velocity_key userID w) of
        None \<Rightarrow> (0, None)
      | Some e \<Rightarrow> if time_After now (expiresAt e) then (0, None) else (entry_value e, None))"

definition memory_Len :: "memory_counter \<Rightarrow> nat" where
  "memory_Len c = card (dom (counter_mem c))"

definition memory_counter_ops :: "memory_counter counter_ops" where
  "memory_counter_ops = \<lparr>Increment = memory_Increment, Rollback = memory_Rollback, CounterGet = memory_Get\<rparr>"

lemmas memory_defs [store_defs] =
  memory_Increment_def memory_Rollback_def memory_Get_def

section \<open>Keys\<close>

lemma digit_no_colon: "is_digit c \<Longrightarrow> c \<noteq> CHR '':''"
  by (auto simp: is_digit_def)

lemma dec_digits_no_colon: "0 \<le> n \<Longrightarrow> CHR '':'' \<notin> set (dec_digits n)"
  using dec_digits_digits [of n] digit_no_colon by (auto simp: list_all_iff)

lemma digit_char_no_colon: "d < 10 \<Longrightarrow> digit_char d \<noteq> CHR '':''"
  using digit_no_colon digit_char_digit by metis

lemma fmt_frac_digits_no_colon:
  "CHR '':'' \<notin> set out \<Longrightarrow> CHR '':'' \<notin> set (fmt_frac_digits p v pr out)"
proof (induction p v pr out rule: fmt_frac_digits.induct)
  case (2 p v pr out)
  have "digit_char (nat (v mod 10)) \<noteq> CHR '':''"
    by (rule digit_char_no_colon) (simp add: nat_less_iff)
  with 2 show ?case by (simp add: Let_def)
qed simp

lemma fmt_frac_no_colon: "CHR '':'' \<notin> set (fmt_frac v p)"
  by (simp add: fmt_frac_def fmt_frac_digits_no_colon)

lemma micro_sign_no_colon: "CHR '':'' \<notin> set micro_sign"
  by code_simp

lemma duration_abs_no_colon: "0 \<le> u \<Longrightarrow> CHR '':'' \<notin> set (duration_abs_string u)"
  by (simp add: duration_abs_string_def Let_def dec_digits_no_colon fmt_frac_no_colon micro_sign_no_colon
      pos_imp_zdiv_nonneg_iff)

lemma Suffix_no_colon: "CHR '':'' \<notin> set (Suffix w)"
  by (simp add: Suffix_def duration_String_def duration_abs_no_colon)

lemma append_sep_inject:
  assumes "u @ c # s = v @ c # t" and "c \<notin> set s" and "c \<notin> set t"
  shows "u = v \<and> s = t"
proof -
  have "takeWhile (\<lambda>x. x \<noteq> c) (rev (u @ c # s)) = rev s"
    and "takeWhile (\<lambda>x. x \<noteq> c) (rev (v @ c # t)) = rev t"
    using assms(2,3) by (auto simp: takeWhile_append)
  with assms(1) have "s = t" by (metis rev_rev_ident)
  with assms(1) show ?thesis by simp
qed

text \<open>
  Counters of different users, or of windows with different suffixes, never share a key, even when
  a user identifier itself contains the separator of the key.
\<close>

theorem velocity_key_inject:
  "velocity_key u w = velocity_key u' w' \<longleftrightarrow> u = u' \<and> Suffix w = Suffix w'"
  using append_sep_inject [of u "CHR '':''" "Suffix w" u' "Suffix w'"] Suffix_no_colon
  by (auto simp: velocity_key_def)

section \<open>What a velocity counter promises\<close>

text \<open>
  \<open>counts_le n s\<close> bounds every counter of the state \<open>s\<close> by 0 and \<open>n\<close>. The laws give the
  value that \<^verbatim>\<open>Get\<close> reports after an increment or a rollback, for the counter itself as long as its
  window lasts, and for every other counter. \<open>window_ok\<close> are the windows whose length the store keeps exactly.
\<close>

locale velocity_counter =
  fixes ops :: "'s counter_ops" and counts_le :: "nat \<Rightarrow> 's \<Rightarrow> bool" and window_ok :: "window \<Rightarrow> bool"
  assumes get_bounds: "counts_le n s \<Longrightarrow> 0 \<le> sint (fst (CounterGet ops u w t s)) \<and> sint (fst (CounterGet ops u w t s)) \<le> int n"
    and increment_ret: "counts_le n s \<Longrightarrow> int n < 2 ^ 63 - 1 \<Longrightarrow> fst (Increment ops u w now s) = (fst (CounterGet ops u w now s) + 1, None)"
    and increment_get: "counts_le n s \<Longrightarrow> int n < 2 ^ 63 - 1 \<Longrightarrow> window_ok w \<Longrightarrow> \<not> time_After t (time_Add now w) \<Longrightarrow>
      CounterGet ops u w t (snd (Increment ops u w now s)) = fst (Increment ops u w now s)"
    and increment_expired: "counts_le n s \<Longrightarrow> int n < 2 ^ 63 - 1 \<Longrightarrow> window_ok w \<Longrightarrow> time_After t (time_Add now w) \<Longrightarrow>
      CounterGet ops u w t (snd (Increment ops u w now s)) = (0, None)"
    and get_key: "velocity_key u w = velocity_key u' w' \<Longrightarrow> CounterGet ops u w t s = CounterGet ops u' w' t s"
    and increment_other: "velocity_key u' w' \<noteq> velocity_key u w \<Longrightarrow>
      CounterGet ops u' w' t (snd (Increment ops u w now s)) = CounterGet ops u' w' t s"
    and increment_within: "counts_le n s \<Longrightarrow> int n < 2 ^ 63 - 1 \<Longrightarrow> counts_le (Suc n) (snd (Increment ops u w now s))"
    and rollback_get: "counts_le n s \<Longrightarrow> now \<le> t \<Longrightarrow>
      sint (fst (CounterGet ops u w t (snd (Rollback ops u w now s)))) = max 0 (sint (fst (CounterGet ops u w t s)) - 1)"
    and rollback_other: "velocity_key u' w' \<noteq> velocity_key u w \<Longrightarrow>
      CounterGet ops u' w' t (snd (Rollback ops u w now s)) = CounterGet ops u' w' t s"
    and rollback_within: "counts_le n s \<Longrightarrow> counts_le n (snd (Rollback ops u w now s))"
begin

abbreviation count :: "string \<Rightarrow> window \<Rightarrow> gotime \<Rightarrow> 's \<Rightarrow> int" where
  "count u w t s \<equiv> sint (fst (CounterGet ops u w t s))"

lemma count_below_max: "counts_le n s \<Longrightarrow> int n < 2 ^ 63 - 1 \<Longrightarrow> count u w t s < 2 ^ 63 - 1"
  using get_bounds [of n s u w t] by linarith

lemma increment_count:
  assumes "counts_le n s" and "int n < 2 ^ 63 - 1"
  shows "sint (fst (fst (Increment ops u w now s))) = count u w now s + 1"
  using sint_i64_inc [OF count_below_max [OF assms]] by (simp add: increment_ret [OF assms])

lemma increment_then_rollback:
  assumes "counts_le n s" and "int n < 2 ^ 63 - 1" and "now \<le> later" and "later \<le> t" and "\<not> time_After t (time_Add now w)" and "window_ok w"
  shows "count u w t (snd (Rollback ops u w later (snd (Increment ops u w now s)))) = count u w now s"
proof -
  let ?s = "snd (Increment ops u w now s)"
  have "counts_le (Suc n) ?s" using assms(1,2) by (rule increment_within)
  then have "count u w t (snd (Rollback ops u w later ?s)) = max 0 (count u w t ?s - 1)"
    using assms(4) by (rule rollback_get)
  also have "count u w t ?s = count u w now s + 1"
    using increment_get [OF assms(1,2,6,5)] increment_count [OF assms(1,2)] by simp
  finally show ?thesis using get_bounds [OF assms(1), of u w now] by simp
qed

end

section \<open>The in-memory counter keeps the promise\<close>

definition memory_within :: "nat \<Rightarrow> memory_counter \<Rightarrow> bool" where
  "memory_within n c \<longleftrightarrow>
     (\<forall>k e. counter_mem c k = Some e \<longrightarrow> 0 \<le> sint (entry_value e) \<and> sint (entry_value e) \<le> int n)"

lemma memory_withinD:
  "memory_within n c \<Longrightarrow> counter_mem c k = Some e \<Longrightarrow> 0 \<le> sint (entry_value e) \<and> sint (entry_value e) \<le> int n"
  by (simp add: memory_within_def)

lemma memory_within_upd:
  "memory_within n c \<Longrightarrow> n \<le> m \<Longrightarrow> 0 \<le> sint (entry_value e) \<Longrightarrow> sint (entry_value e) \<le> int m \<Longrightarrow>
     memory_within m (c\<lparr>counter_mem := (counter_mem c)(k \<mapsto> e)\<rparr>)"
  by (fastforce simp: memory_within_def)

lemma memory_ops_simps [simp]:
  "Increment memory_counter_ops = memory_Increment" "Rollback memory_counter_ops = memory_Rollback"
  "CounterGet memory_counter_ops = memory_Get"
  by (simp_all add: memory_counter_ops_def)

lemma memory_Get_bounds:
  "memory_within n c \<Longrightarrow> 0 \<le> sint (fst (memory_Get u w t c)) \<and> sint (fst (memory_Get u w t c)) \<le> int n"
  using memory_withinD [of n c "velocity_key u w"] by (auto simp: memory_Get_def split: option.splits)

lemma memory_Increment_eq:
  "memory_Increment u w now c =
     ((fst (memory_Get u w now c) + 1, None),
      c\<lparr>counter_mem := (counter_mem c)(velocity_key u w \<mapsto>
         \<lparr>entry_value = fst (memory_Get u w now c) + 1, expiresAt = time_Add now w\<rparr>)\<rparr>)"
proof (cases "counter_mem c (velocity_key u w)")
  case None
  then show ?thesis by (simp add: memory_Increment_def memory_Get_def)
next
  case (Some e)
  then show ?thesis by (cases e) (simp add: memory_Increment_def memory_Get_def)
qed

lemma memory_Rollback_get:
  assumes "memory_within n c" and "now \<le> t"
  shows "sint (fst (memory_Get u w t (snd (memory_Rollback u w now c)))) = max 0 (sint (fst (memory_Get u w t c)) - 1)"
proof (cases "counter_mem c (velocity_key u w)")
  case None
  then show ?thesis by (simp add: memory_Rollback_def memory_Get_def)
next
  case (Some e)
  have v: "0 \<le> sint (entry_value e)" using memory_withinD [OF assms(1) Some] by simp
  then have "sint (entry_value e - 1) = sint (entry_value e) - 1" by (rule sint_i64_dec_nonneg)
  with v Some assms(2) show ?thesis
    by (auto simp: memory_Rollback_def memory_Get_def Let_def time_After_def)
qed

lemma memory_Rollback_within:
  assumes "memory_within n c"
  shows "memory_within n (snd (memory_Rollback u w now c))"
proof (cases "counter_mem c (velocity_key u w)")
  case None
  with assms show ?thesis by (simp add: memory_Rollback_def)
next
  case (Some e)
  have v: "0 \<le> sint (entry_value e)" "sint (entry_value e) \<le> int n"
    using memory_withinD [OF assms Some] by auto
  from v(1) have "sint (entry_value e - 1) = sint (entry_value e) - 1" by (rule sint_i64_dec_nonneg)
  with v Some assms show ?thesis
    by (auto simp: memory_Rollback_def Let_def intro!: memory_within_upd [of n c n])
qed

lemma memory_Rollback_other:
  "velocity_key u' w' \<noteq> velocity_key u w \<Longrightarrow> memory_Get u' w' t (snd (memory_Rollback u w now c)) = memory_Get u' w' t c"
  by (auto simp: memory_Rollback_def memory_Get_def Let_def split: option.splits)

lemma memory_Increment_within:
  assumes "memory_within n c" and "int n < 2 ^ 63 - 1"
  shows "memory_within (Suc n) (snd (memory_Increment u w now c))"
proof -
  have b: "0 \<le> sint (fst (memory_Get u w now c))" "sint (fst (memory_Get u w now c)) \<le> int n"
    using memory_Get_bounds [OF assms(1)] by auto
  with assms(2) have "sint (fst (memory_Get u w now c) + 1) = sint (fst (memory_Get u w now c)) + 1"
    by (intro sint_i64_inc) linarith
  with b show ?thesis
    unfolding memory_Increment_eq by (auto intro!: memory_within_upd [OF assms(1)])
qed

interpretation mc: velocity_counter memory_counter_ops memory_within "\<lambda>_. True"
proof (unfold_locales, goal_cases)
  case (1 n s u w t) then show ?case by (simp add: memory_Get_bounds)
next
  case (2 n s u w now) then show ?case by (simp add: memory_Increment_eq)
next
  case (3 n s w t now u) then show ?case by (simp add: memory_Increment_eq memory_Get_def)
next
  case (4 n s w t now u) then show ?case by (simp add: memory_Increment_eq memory_Get_def)
next
  case (5 u w u' w' t s) then show ?case by (simp add: memory_Get_def)
next
  case (6 u' w' u w t now s) then show ?case by (simp add: memory_Increment_eq memory_Get_def)
next
  case (7 n s u w now) then show ?case by (simp add: memory_Increment_within)
next
  case (8 n s now t u w) then show ?case by (simp add: memory_Rollback_get)
next
  case (9 u' w' u w t now s) then show ?case by (simp add: memory_Rollback_other)
next
  case (10 n s u w now) then show ?case by (simp add: memory_Rollback_within)
qed

section \<open>Runs of the counter\<close>

datatype counter_event = Inc string window gotime | Dec string window gotime

fun counter_step :: "'s counter_ops \<Rightarrow> counter_event \<Rightarrow> 's \<Rightarrow> 's" where
  "counter_step ops (Inc u w t) s = snd (Increment ops u w t s)"
| "counter_step ops (Dec u w t) s = snd (Rollback ops u w t s)"

definition counter_run :: "'s counter_ops \<Rightarrow> counter_event list \<Rightarrow> 's \<Rightarrow> 's" where
  "counter_run ops evs s = fold (counter_step ops) evs s"

context velocity_counter
begin

lemma counter_step_counts_le:
  assumes "counts_le n s" and "int n < 2 ^ 63 - 1"
  shows "counts_le (Suc n) (counter_step ops ev s) \<or> counts_le n (counter_step ops ev s)"
  using assms increment_within rollback_within by (cases ev) auto

lemma counter_run_counts_le:
  "counts_le n s \<Longrightarrow> int (n + length evs) < 2 ^ 63 \<Longrightarrow>
     \<exists>m \<le> n + length evs. counts_le m (counter_run ops evs s)"
proof (induction evs arbitrary: n s)
  case Nil
  then show ?case by (auto simp: counter_run_def)
next
  case (Cons ev evs)
  let ?s = "counter_step ops ev s"
  from Cons.prems consider "counts_le (Suc n) ?s" | "counts_le n ?s"
    using counter_step_counts_le [of n s ev] by fastforce
  then obtain k where k: "k \<le> Suc n" "counts_le k ?s" by cases (auto intro: le_SucI)
  obtain m where "m \<le> k + length evs" "counts_le m (counter_run ops evs ?s)"
    using Cons.IH [OF k(2)] k(1) Cons.prems(2) by auto
  then show ?case using k(1) by (intro exI [of _ m]) (simp add: counter_run_def)
qed

lemma increments_accumulate:
  assumes "counts_le 0 s" and "window_ok w"
  shows "successively (\<lambda>a b. b \<le> time_Add a w) ts \<Longrightarrow> ts \<noteq> [] \<Longrightarrow> int (length ts) < 2 ^ 63 \<Longrightarrow>
     t \<le> time_Add (last ts) w \<Longrightarrow> count u w t (counter_run ops (map (Inc u w) ts) s) = int (length ts)"
proof (induction ts arbitrary: t rule: rev_induct)
  case (snoc x ts)
  let ?s = "counter_run ops (map (Inc u w) ts) s"
  obtain m where m: "m \<le> length ts" "counts_le m ?s"
    using counter_run_counts_le [OF assms(1), of "map (Inc u w) ts"] snoc.prems(3) by auto
  have prev: "count u w x ?s = int (length ts)"
  proof (cases "ts = []")
    case True
    with m get_bounds [of m ?s u w x] have "count u w x ?s \<le> 0" and "0 \<le> count u w x ?s" by auto
    then have "count u w x ?s = 0" by (rule order.antisym)
    with True show ?thesis by simp
  next
    case False
    with snoc.prems have "successively (\<lambda>a b. b \<le> time_Add a w) ts" and "x \<le> time_Add (last ts) w"
      by (auto simp: successively_append_iff)
    with False snoc.prems(3) show ?thesis by (intro snoc.IH) auto
  qed
  have "count u w t (snd (Increment ops u w x ?s)) = sint (fst (fst (Increment ops u w x ?s)))"
    using snoc.prems(3,4) m assms(2) by (subst increment_get [of m]) (auto simp: time_After_def)
  also have "\<dots> = count u w x ?s + 1"
    using m snoc.prems(3) by (intro increment_count [of m]) auto
  finally show ?case using prev by (simp add: counter_run_def)
qed simp

end

section \<open>Two counters under the same operations\<close>

fun event_time :: "counter_event \<Rightarrow> gotime" where
  "event_time (Inc u w t) = t"
| "event_time (Dec u w t) = t"

fun event_window :: "counter_event \<Rightarrow> window" where
  "event_window (Inc u w t) = w"
| "event_window (Dec u w t) = w"

text \<open>
  The contract determines what a counter reports: two implementations that keep it report the same numbers after
  the same operations, from every instant after the last of them on.
\<close>

locale counter_pair =
  a: velocity_counter ops_a le_a ok_a + b: velocity_counter ops_b le_b ok_b
  for ops_a :: "'a counter_ops" and le_a ok_a and ops_b :: "'b counter_ops" and le_b ok_b
begin

definition agree :: "gotime \<Rightarrow> 'a \<Rightarrow> 'b \<Rightarrow> bool" where
  "agree from_time sa sb \<longleftrightarrow> (\<forall>u w t. from_time \<le> t \<longrightarrow> a.count u w t sa = b.count u w t sb)"

lemma agree_Inc:
  assumes "agree T sa sb" and "T \<le> now" and "ok_a w" and "ok_b w"
    and la: "le_a n sa" and lb: "le_b m sb" and na: "int n < 2 ^ 63 - 1" and nb: "int m < 2 ^ 63 - 1"
  shows "agree now (counter_step ops_a (Inc u w now) sa) (counter_step ops_b (Inc u w now) sb)"
  unfolding agree_def
proof (intro allI impI)
  fix u' w' t
  assume "now \<le> t"
  let ?sa = "counter_step ops_a (Inc u w now) sa" and ?sb = "counter_step ops_b (Inc u w now) sb"
  show "a.count u' w' t ?sa = b.count u' w' t ?sb"
  proof (cases "velocity_key u' w' = velocity_key u w")
    case False
    with assms(1,2) \<open>now \<le> t\<close> show ?thesis by (simp add: a.increment_other b.increment_other agree_def)
  next
    case True
    have key: "a.count u' w' t ?sa = a.count u w t ?sa" "b.count u' w' t ?sb = b.count u w t ?sb"
      by (simp_all add: a.get_key [OF True] b.get_key [OF True])
    show ?thesis
    proof (cases "time_After t (time_Add now w)")
      case True
      then show ?thesis unfolding key by (simp add: a.increment_expired [OF la na assms(3)] b.increment_expired [OF lb nb assms(4)])
    next
      case False
      have "a.count u w t ?sa = a.count u w now sa + 1" "b.count u w t ?sb = b.count u w now sb + 1"
        using a.increment_get [OF la na assms(3) False] a.increment_count [OF la na]
          b.increment_get [OF lb nb assms(4) False] b.increment_count [OF lb nb] by simp_all
      with assms(1,2) show ?thesis unfolding key by (simp add: agree_def)
    qed
  qed
qed

lemma agree_Dec:
  assumes "agree T sa sb" and "T \<le> now" and "le_a n sa" and "le_b m sb"
  shows "agree now (counter_step ops_a (Dec u w now) sa) (counter_step ops_b (Dec u w now) sb)"
  unfolding agree_def
proof (intro allI impI)
  fix u' w' t
  assume t: "now \<le> t"
  show "a.count u' w' t (counter_step ops_a (Dec u w now) sa) = b.count u' w' t (counter_step ops_b (Dec u w now) sb)"
  proof (cases "velocity_key u' w' = velocity_key u w")
    case False
    with assms(1,2) t show ?thesis by (simp add: a.rollback_other b.rollback_other agree_def)
  next
    case True
    from assms(1,2) t show ?thesis
      by (simp add: a.get_key [OF True] b.get_key [OF True] a.rollback_get [OF assms(3) t] b.rollback_get [OF assms(4) t] agree_def)
  qed
qed

lemma agree_run:
  assumes "agree T sa sb" and "le_a n sa" and "le_b n sb" and "int (n + length evs) < 2 ^ 63"
    and "sorted (T # map event_time evs)" and "\<forall>ev \<in> set evs. ok_a (event_window ev) \<and> ok_b (event_window ev)"
  shows "agree (last (T # map event_time evs)) (counter_run ops_a evs sa) (counter_run ops_b evs sb)"
  using assms
proof (induction evs rule: rev_induct)
  case Nil
  then show ?case by (simp add: counter_run_def)
next
  case (snoc ev evs)
  let ?sa = "counter_run ops_a evs sa" and ?sb = "counter_run ops_b evs sb"
  have T: "last (T # map event_time evs) \<le> event_time ev"
    using snoc.prems(5) by (cases evs rule: rev_cases) (auto simp: sorted_append)
  have ag: "agree (last (T # map event_time evs)) ?sa ?sb"
    using snoc.prems by (intro snoc.IH) (auto simp: sorted_append)
  obtain i where i: "i \<le> n + length evs" "le_a i ?sa"
    using a.counter_run_counts_le [OF snoc.prems(2), of evs] snoc.prems(4) by auto
  obtain j where j: "j \<le> n + length evs" "le_b j ?sb"
    using b.counter_run_counts_le [OF snoc.prems(3), of evs] snoc.prems(4) by auto
  have "agree (event_time ev) (counter_step ops_a ev ?sa) (counter_step ops_b ev ?sb)"
  proof (cases ev)
    case (Inc u w t)
    with T ag i j snoc.prems(4,6) show ?thesis
      using agree_Inc [OF ag _ _ _ i(2) j(2), of t w u] by simp
  next
    case (Dec u w t)
    with T agree_Dec [OF ag _ i(2) j(2), of t u w] show ?thesis by simp
  qed
  then show ?case by (simp add: counter_run_def)
qed

end

lemma memory_within_New: "memory_within n NewMemoryCounter"
  by (simp add: memory_within_def NewMemoryCounter_def)

text \<open>
  C28: In every run of increments and rollbacks shorter than 2^63, in any order, for any users, windows and
  instants, every counter that the in-memory implementation reports lies between 0 and the number of
  operations performed: counters are never negative and never wrap around.
\<close>

theorem memory_counter_bounds:
  assumes "int (length evs) < 2 ^ 63"
  shows "0 \<le> sint (fst (memory_Get u w t (counter_run memory_counter_ops evs NewMemoryCounter)))
    \<and> sint (fst (memory_Get u w t (counter_run memory_counter_ops evs NewMemoryCounter))) \<le> int (length evs)"
proof -
  obtain m where "m \<le> length evs" "memory_within m (counter_run memory_counter_ops evs NewMemoryCounter)"
    using mc.counter_run_counts_le [OF memory_within_New [of 0], of evs] assms by auto
  then show ?thesis using mc.get_bounds [of m _ u w t] by fastforce
qed

text \<open>
  C27: Rolling an increment back within the window restores the value the counter had when the increment
  was made, so a transaction that fails downstream leaves the counter of its window as it was.
\<close>

theorem memory_rollback_compensates:
  assumes "memory_within n c" and "int n < 2 ^ 63 - 1"
    and "now \<le> later" and "later \<le> t" and "\<not> time_After t (time_Add now w)"
  shows "sint (fst (memory_Get u w t (snd (memory_Rollback u w later (snd (memory_Increment u w now c))))))
    = sint (fst (memory_Get u w now c))"
  using mc.increment_then_rollback [OF assms TrueI] by simp

text \<open>
  An operation on one counter leaves the counters of every other user and of every window with
  another suffix unchanged at every instant.
\<close>

theorem memory_counter_frame:
  assumes "u' \<noteq> u \<or> Suffix w' \<noteq> Suffix w"
  shows "memory_Get u' w' t (snd (memory_Increment u w now c)) = memory_Get u' w' t c
    \<and> memory_Get u' w' t (snd (memory_Rollback u w now c)) = memory_Get u' w' t c"
proof -
  have "velocity_key u' w' \<noteq> velocity_key u w"
    using assms append_sep_inject [of u' "CHR '':''" "Suffix w'" u "Suffix w"] Suffix_no_colon
    by (auto simp: velocity_key_def)
  then show ?thesis using mc.increment_other mc.rollback_other by simp
qed

text \<open>
  The window is not a rolling one: every increment restarts the expiry, so increments that follow
  one another within a window length all stay counted, however long ago the first of them was made.
\<close>

theorem memory_window_never_slides:
  assumes "successively (\<lambda>a b. b \<le> time_Add a w) ts" and "ts \<noteq> []" and "int (length ts) < 2 ^ 63"
    and "t \<le> time_Add (last ts) w"
  shows "sint (fst (memory_Get u w t (counter_run memory_counter_ops (map (Inc u w) ts) NewMemoryCounter))) = int (length ts)"
  using mc.increments_accumulate [OF memory_within_New [of 0] TrueI assms] by simp

section \<open>Instances\<close>

theorem memory_counter_bounds_witness:
  "0 \<le> sint (fst (memory_Get ''u'' WindowDay 3 (counter_run memory_counter_ops [Inc ''u'' WindowDay 1, Dec ''u'' WindowDay 2] NewMemoryCounter)))"
  using memory_counter_bounds [of "[Inc ''u'' WindowDay 1, Dec ''u'' WindowDay 2]" "''u''" WindowDay 3] by simp

theorem memory_rollback_compensates_witness:
  "sint (fst (memory_Get ''u'' WindowDay 3 (snd (memory_Rollback ''u'' WindowDay 2 (snd (memory_Increment ''u'' WindowDay 1 NewMemoryCounter))))))
    = sint (fst (memory_Get ''u'' WindowDay 1 NewMemoryCounter))"
  by (rule memory_rollback_compensates [OF memory_within_New [of 0]]) (simp_all add: time_After_def time_Add_def WindowDay_def)

theorem memory_counter_frame_witness:
  "memory_Get ''bob'' WindowDay 5 (snd (memory_Increment ''alice'' WindowDay 4 NewMemoryCounter)) = memory_Get ''bob'' WindowDay 5 NewMemoryCounter"
  using memory_counter_frame [of "''bob''" "''alice''" WindowDay WindowDay 5 4 NewMemoryCounter] by simp

text \<open>One transaction a day over 36 days: the daily counter reports all of them.\<close>

theorem memory_window_never_slides_witness:
  "sint (fst (memory_Get ''u'' WindowDay (35 * sint WindowDay)
     (counter_run memory_counter_ops (map (Inc ''u'' WindowDay) (map (\<lambda>i. int i * sint WindowDay) [0..<36])) NewMemoryCounter))) = 36"
proof -
  have "successively (\<lambda>a b. b \<le> time_Add a WindowDay) (map (\<lambda>i. int i * sint WindowDay) [0..<36])"
    by (simp add: successively_conv_nth time_Add_def left_diff_distrib distrib_right)
  from memory_window_never_slides [OF this, of "35 * sint WindowDay" "''u''"] show ?thesis
    by (simp add: time_Add_def WindowDay_def last_map)
qed

end
