(* ===== verification/Engine.thy ===== *)
theory Engine
  imports Velocity "HOL-Library.AList" "HOL-Library.List_Lexorder" "HOL-Library.Char_ord"
    "HOL-Library.Multiset"
begin

text \<open>
  Package \<^verbatim>\<open>internal/engine\<close>, files \<^verbatim>\<open>engine.go\<close>, \<^verbatim>\<open>bundlepoll.go\<close> and \<^verbatim>\<open>hotreload.go\<close>: bundles
  and their hash, the OPA-backed engine with its cached compiler, the mapping of Rego results to a
  decision, the bundle download with its content check, the poller and the hot reloader.

  OPA itself (module parser, compiler and evaluator), the hash function, the encoder of data values and
  the HTTP transport are parameters. A Go map is the association list of its entries in the order in
  which an iteration visits them, so every statement about all such lists covers every iteration order.
\<close>

section \<open>Bundles\<close>

record 'd policy_bundle =
  bVersion :: string
  bHash :: string
  bSource :: "(string \<times> string) list"
  bData :: "(string \<times> 'd) list"

definition mergeData :: "(string \<times> 'd) list \<Rightarrow> (string \<times> 'd) list \<Rightarrow> (string \<times> 'd) list" where
  "mergeData dst src = fold (\<lambda>(k, v) m. AList.update k v m) src dst"

definition nul :: char where
  "nul = CHR 0x00"

text \<open>The bytes written to the hash for one section: each key in sorted order with its content.\<close>

definition section_bytes :: "(string \<times> string) list \<Rightarrow> string" where
  "section_bytes m = concat (map (\<lambda>k. k @ [nul] @ the (map_of m k) @ [nul]) (sort (map fst m)))"

text \<open>\<open>marshal\<close> is the JSON encoding of a data value, empty when the encoder fails.\<close>

definition bundle_bytes :: "('d \<Rightarrow> string) \<Rightarrow> (string \<times> string) list \<Rightarrow> (string \<times> 'd) list \<Rightarrow> string" where
  "bundle_bytes marshal src data = section_bytes src @ section_bytes (map (\<lambda>(k, v). (k, marshal v)) data)"

definition hashBundle :: "(string \<Rightarrow> string) \<Rightarrow> ('d \<Rightarrow> string) \<Rightarrow> (string \<times> string) list \<Rightarrow> (string \<times> 'd) list \<Rightarrow> string" where
  "hashBundle sha256hex marshal src data = sha256hex (bundle_bytes marshal src data)"

text \<open>
  The calls of the walk function in the order of the directory walk: a walk error, a directory, a file
  that cannot be read, or a file with its path, its path relative to the directory and its content. The
  JSON parser yields an object or an error, the YAML parser a value that may or may not be an object.
\<close>

datatype walk_entry = WalkError gerror | WalkDirectory string | WalkUnreadable string gerror | WalkFile string string string

record 'd file_parsers =
  parse_json :: "string \<Rightarrow> (string \<times> 'd) list result"
  parseYAML :: "string \<Rightarrow> (string \<times> 'd) list option result"

definition file_ext :: "string \<Rightarrow> string" where
  "file_ext path =
     (let base = rev (takeWhile (\<lambda>c. c \<noteq> CHR ''/'') (rev path))
      in if CHR ''.'' \<in> set base then CHR ''.'' # rev (takeWhile (\<lambda>c. c \<noteq> CHR ''.'') (rev base)) else [])"

fun walk_files :: "'d file_parsers \<Rightarrow> walk_entry list \<Rightarrow> (string \<times> string) list \<Rightarrow> (string \<times> 'd) list
    \<Rightarrow> ((string \<times> string) list \<times> (string \<times> 'd) list) result" where
  "walk_files ps [] src data = Inr (src, data)"
| "walk_files ps (WalkError err # fs) src data = Inl err"
| "walk_files ps (WalkDirectory d # fs) src data = walk_files ps fs src data"
| "walk_files ps (WalkUnreadable path rerr # fs) src data = Inl (Errorf (''read '' @ path @ '': '') rerr)"
| "walk_files ps (WalkFile path rel body # fs) src data =
     (if file_ext path = ''.rego'' then walk_files ps fs (AList.update rel body src) data
      else if file_ext path = ''.json'' then
        (case parse_json ps body of
           Inl err \<Rightarrow> Inl (Errorf (''parse json '' @ path @ '': '') err)
         | Inr v \<Rightarrow> walk_files ps fs src (mergeData data v))
      else if file_ext path = ''.yaml'' \<or> file_ext path = ''.yml'' then
        (case parseYAML ps body of
           Inl err \<Rightarrow> Inl (Errorf (''parse yaml '' @ path @ '': '') err)
         | Inr None \<Rightarrow> walk_files ps fs src data
         | Inr (Some m) \<Rightarrow> walk_files ps fs src (mergeData data m))
      else walk_files ps fs src data)"

definition LoadBundleFromDir ::
  "(string \<Rightarrow> string) \<Rightarrow> ('d \<Rightarrow> string) \<Rightarrow> 'd file_parsers \<Rightarrow> walk_entry list \<Rightarrow> 'd policy_bundle result" where
  "LoadBundleFromDir sha256hex marshal ps walk =
     (case walk_files ps walk [] [] of
        Inl err \<Rightarrow> Inl err
      | Inr (src, data) \<Rightarrow>
          if src = [] then Inl (ErrorNew ''no .rego files found in bundle dir'')
          else Inr \<lparr>bVersion = hashBundle sha256hex marshal src data, bHash = hashBundle sha256hex marshal src data,
                    bSource = src, bData = data\<rparr>)"

section \<open>Rego results\<close>

record engine_input =
  in_user_id :: string
  in_amount_usd :: f64
  in_kyt_verdict :: string
  in_fraud_score :: f64
  in_kyc_status :: string
  in_dest_address :: string
  in_whitelisted :: bool
  in_requires_2fa :: bool
  in_session_2fa_passed :: bool

datatype rego_value = RBool bool | RNil | RFloat f64 | RInt i64 | RNumber string | ROther

text \<open>A result set: for each result the values of its expressions.\<close>

type_synonym result_set = "rego_value list list"

definition truthy :: "result_set \<Rightarrow> bool" where
  "truthy results =
     (case results of
        (v # _) # _ \<Rightarrow> (case v of RBool b \<Rightarrow> b | RNil \<Rightarrow> False | _ \<Rightarrow> True)
      | _ \<Rightarrow> False)"

definition f64_of_i64 :: "i64 \<Rightarrow> f64" where
  "f64_of_i64 n = round64 (sint n < 0) (of_int \<bar>sint n\<bar>)"

definition scoreFloat :: "result_set \<Rightarrow> f64" where
  "scoreFloat results =
     (case results of
        (v # _) # _ \<Rightarrow>
          (case v of RFloat x \<Rightarrow> x | RInt n \<Rightarrow> f64_of_i64 n | RNumber s \<Rightarrow> fst (ParseFloat s) | _ \<Rightarrow> Fin False 0)
      | _ \<Rightarrow> Fin False 0)"

record engine_result =
  resAllow :: bool
  resManualReview :: bool
  resDeny :: bool
  resRiskScore :: f64
  resDecision :: string
  resAppliedRules :: "string list"

definition appliedRules :: "bool \<Rightarrow> bool \<Rightarrow> bool \<Rightarrow> string list" where
  "appliedRules allow mr deny =
     (if deny then [''deny.fraud_high'', ''deny.kyt_sanctioned'', ''deny.daily_cap_exceeded'', ''deny.dest_not_whitelisted'', ''deny.kyc_not_verified''] else []) @
     (if mr then [''manual_review.fraud_mid'', ''manual_review.near_cap''] else []) @
     (if allow then [''allow.clean''] else [])"

definition decide :: "bool \<Rightarrow> bool \<Rightarrow> bool \<Rightarrow> f64 \<Rightarrow> string list \<Rightarrow> engine_result" where
  "decide allow mr deny score rules =
     (let decision = (if deny then ''deny'' else if mr then ''manual_review'' else if allow then ''allow'' else ''manual_review'')
      in \<lparr>resAllow = allow, resManualReview = mr, resDeny = deny, resRiskScore = score, resDecision = decision, resAppliedRules = rules\<rparr>)"

section \<open>The OPA engine\<close>

text \<open>
  The parser, the compiler and the evaluator of OPA. The compiler's errors are rendered into a message,
  so they are not wrapped.
\<close>

record ('d, 'm, 'c) opa =
  ParseModule :: "string \<Rightarrow> string \<Rightarrow> 'm result"
  Compile :: "(string \<times> 'm) list \<Rightarrow> string + 'c"
  RegoEval :: "'c \<Rightarrow> (string \<times> 'd) list \<Rightarrow> engine_input \<Rightarrow> string \<Rightarrow> result_set result"

fun parse_modules :: "(string \<Rightarrow> string \<Rightarrow> 'm result) \<Rightarrow> (string \<times> string) list \<Rightarrow> (string \<times> 'm) list result" where
  "parse_modules parse [] = Inr []"
| "parse_modules parse ((name, body) # src) =
     (case parse name body of
        Inl err \<Rightarrow> Inl (Errorf (''parse '' @ name @ '': '') err)
      | Inr m \<Rightarrow> (case parse_modules parse src of Inl err \<Rightarrow> Inl err | Inr ms \<Rightarrow> Inr ((name, m) # ms)))"

definition compileModules :: "('d, 'm, 'c) opa \<Rightarrow> (string \<times> string) list \<Rightarrow> 'c result" where
  "compileModules opa src =
     (case parse_modules (ParseModule opa) src of
        Inl err \<Rightarrow> Inl err
      | Inr modules \<Rightarrow> (case Compile opa modules of Inl errs \<Rightarrow> Inl (ErrorNew (''compile: '' @ errs)) | Inr c \<Rightarrow> Inr c))"

definition normalizeData :: "(string \<times> 'd) list \<Rightarrow> (string \<times> 'd) list" where
  "normalizeData data = data"

record ('d, 'c) opa_engine =
  eng_bundle :: "'d policy_bundle option"
  eng_compiler :: "'c option"
  eng_store :: "(string \<times> 'd) list"

definition rebuild :: "('d, 'm, 'c) opa \<Rightarrow> ('d, 'c) opa_engine \<Rightarrow> ('d, 'c) opa_engine" where
  "rebuild opa e =
     (case eng_bundle e of
        None \<Rightarrow> e
      | Some b \<Rightarrow>
          (case compileModules opa (bSource b) of
             Inl err \<Rightarrow> e
           | Inr c \<Rightarrow> e\<lparr>eng_compiler := Some c, eng_store := normalizeData (bData b)\<rparr>))"

definition NewOPAEngine :: "('d, 'm, 'c) opa \<Rightarrow> 'd policy_bundle option \<Rightarrow> ('d, 'c) opa_engine" where
  "NewOPAEngine opa b = rebuild opa \<lparr>eng_bundle = b, eng_compiler = None, eng_store = []\<rparr>"

definition eng_Hash :: "('d, 'c) opa_engine \<Rightarrow> string result" where
  "eng_Hash e = (case eng_bundle e of None \<Rightarrow> Inl NilDereference | Some b \<Rightarrow> Inr (bHash b))"

definition eng_Version :: "('d, 'c) opa_engine \<Rightarrow> string result" where
  "eng_Version e = (case eng_bundle e of None \<Rightarrow> Inl NilDereference | Some b \<Rightarrow> Inr (bVersion b))"

definition eng_Bundle :: "('d, 'c) opa_engine \<Rightarrow> 'd policy_bundle option" where
  "eng_Bundle e = eng_bundle e"

definition Swap :: "('d, 'm, 'c) opa \<Rightarrow> 'd policy_bundle option \<Rightarrow> ('d, 'c) opa_engine \<Rightarrow> ('d, 'c) opa_engine" where
  "Swap opa b e = rebuild opa (e\<lparr>eng_bundle := b\<rparr>)"

definition evalBool :: "('d, 'm, 'c) opa \<Rightarrow> 'c \<Rightarrow> (string \<times> 'd) list \<Rightarrow> engine_input \<Rightarrow> string \<Rightarrow> bool result" where
  "evalBool opa c st input query = (case RegoEval opa c st input query of Inl err \<Rightarrow> Inl err | Inr rs \<Rightarrow> Inr (truthy rs))"

definition evalFloat :: "('d, 'm, 'c) opa \<Rightarrow> 'c \<Rightarrow> (string \<times> 'd) list \<Rightarrow> engine_input \<Rightarrow> string \<Rightarrow> f64 result" where
  "evalFloat opa c st input query = (case RegoEval opa c st input query of Inl err \<Rightarrow> Inl err | Inr rs \<Rightarrow> Inr (scoreFloat rs))"

definition engine_run :: "('d, 'm, 'c) opa \<Rightarrow> 'c \<Rightarrow> (string \<times> 'd) list \<Rightarrow> engine_input \<Rightarrow> engine_result result" where
  "engine_run opa c st input =
     (case evalBool opa c st input ''data.policy.decisions.allow'' of
        Inl err \<Rightarrow> Inl (Errorf ''eval allow: '' err)
      | Inr allow \<Rightarrow>
     (case evalBool opa c st input ''data.policy.decisions.manual_review'' of
        Inl err \<Rightarrow> Inl (Errorf ''eval manual_review: '' err)
      | Inr mr \<Rightarrow>
     (case evalBool opa c st input ''data.policy.decisions.deny'' of
        Inl err \<Rightarrow> Inl (Errorf ''eval deny: '' err)
      | Inr deny \<Rightarrow>
        let score = (case evalFloat opa c st input ''data.policy.decisions.risk_score'' of Inl err \<Rightarrow> Fin False 0 | Inr x \<Rightarrow> x)
        in Inr (decide allow mr deny score (appliedRules allow mr deny)))))"

definition engine_Evaluate :: "('d, 'm, 'c) opa \<Rightarrow> ('d, 'c) opa_engine \<Rightarrow> engine_input \<Rightarrow> engine_result result" where
  "engine_Evaluate opa e input =
     (case eng_compiler e of
        Some c \<Rightarrow> engine_run opa c (eng_store e) input
      | None \<Rightarrow>
          (case eng_bundle e of
             None \<Rightarrow> Inl NilDereference
           | Some b \<Rightarrow>
               (case compileModules opa (bSource b) of
                  Inl err \<Rightarrow> Inl (Errorf ''compile: '' err)
                | Inr c \<Rightarrow> engine_run opa c (normalizeData (bData b)) input)))"

section \<open>Bundle download\<close>

record http_response =
  StatusCode :: nat
  ContentType :: string
  resp_body :: "string result"

record http_client =
  NewRequest :: "string \<Rightarrow> gerror option"
  http_Do :: "string \<Rightarrow> http_response result"

definition newline :: char where
  "newline = CHR 0x0A"

text \<open>
  \<^verbatim>\<open>splitLines\<close> walks over the positions of the body with the start of the current line.
\<close>

function splitLines_loop :: "string \<Rightarrow> nat \<Rightarrow> nat \<Rightarrow> string list \<Rightarrow> string list" where
  "splitLines_loop b i start out =
     (if i < length b
      then if b ! i = newline
           then splitLines_loop b (i + 1) (i + 1) (out @ [take (i - start) (drop start b)])
           else splitLines_loop b (i + 1) start out
      else if start < length b then out @ [drop start b] else out)"
  by pat_completeness auto
termination by (relation "measure (\<lambda>(b, i, start, out). length b - i)") auto

declare splitLines_loop.simps [simp del]

definition splitLines :: "string \<Rightarrow> string list" where
  "splitLines b = splitLines_loop b 0 0 []"

fun trimLeftSpace :: "string \<Rightarrow> string" where
  "trimLeftSpace [] = []"
| "trimLeftSpace (c # b) =
     (if c = CHR '' '' \<or> c = CHR 0x09 \<or> c = CHR 0x0D then trimLeftSpace b else c # b)"

definition startsWith :: "string \<Rightarrow> string \<Rightarrow> bool" where
  "startsWith b p = (if length b < length p then False else take (length p) b = p)"

fun first_code_line :: "string list \<Rightarrow> bool" where
  "first_code_line [] = False"
| "first_code_line (line # lines) =
     (let trimmed = trimLeftSpace line
      in if trimmed = [] \<or> hd trimmed = CHR ''#'' then first_code_line lines else startsWith trimmed ''package '')"

definition isRegoContent :: "string \<Rightarrow> string \<Rightarrow> bool" where
  "isRegoContent contentType body =
     (if contentType = ''text/plain'' \<or> contentType = ''application/octet-stream''
      then first_code_line (splitLines body) else False)"

definition LoadBundleFromURL :: "(string \<Rightarrow> string) \<Rightarrow> http_client \<Rightarrow> string \<Rightarrow> 'd policy_bundle result" where
  "LoadBundleFromURL sha256hex client bundleURL =
     (if bundleURL = [] then Inl (ErrorNew ''bundle url is required'')
      else case NewRequest client bundleURL of
        Some err \<Rightarrow> Inl (Errorf ''bundle request: '' err)
      | None \<Rightarrow>
     (case http_Do client bundleURL of
        Inl err \<Rightarrow> Inl (Errorf ''fetch bundle: '' err)
      | Inr resp \<Rightarrow>
          if StatusCode resp div 100 \<noteq> 2
          then Inl (ErrorNew (''bundle fetch status '' @ Itoa (int (StatusCode resp))))
          else (case resp_body resp of
                  Inl err \<Rightarrow> Inl (Errorf ''read bundle: '' err)
                | Inr body \<Rightarrow>
                    Inr \<lparr>bVersion = sha256hex body, bHash = sha256hex body,
                         bSource = (if isRegoContent (ContentType resp) body then [(''staged.rego'', body)] else []),
                         bData = []\<rparr>)))"

definition engine_envInt :: "env \<Rightarrow> string \<Rightarrow> int \<Rightarrow> int" where
  "engine_envInt getenv key def =
     (let v = getenv key
      in if v \<noteq> [] then (case Atoi v of (n, None) \<Rightarrow> n | (_, Some _) \<Rightarrow> def) else def)"

definition poll_interval :: "env \<Rightarrow> string \<Rightarrow> duration \<Rightarrow> duration" where
  "poll_interval getenv key interval =
     (if sint interval \<le> 0 then word_of_int (engine_envInt getenv key 30) * Second else interval)"

section \<open>The poller\<close>

text \<open>
  \<open>po_onStage\<close> says whether a callback is set; \<open>pollOnce\<close> returns the bundle that is handed to it.
\<close>

record ('d, 'c) poller =
  po_url :: string
  po_interval :: duration
  po_engine :: "('d, 'c) opa_engine option"
  po_onStage :: bool

definition NewPoller :: "env \<Rightarrow> string \<Rightarrow> duration \<Rightarrow> ('d, 'c) opa_engine option \<Rightarrow> bool \<Rightarrow> ('d, 'c) poller" where
  "NewPoller getenv url interval eng onStage =
     \<lparr>po_url = url, po_interval = poll_interval getenv ''OPA_BUNDLE_POLL_INTERVAL'' interval,
      po_engine = eng, po_onStage = onStage\<rparr>"

definition pollOnce :: "(string \<Rightarrow> string) \<Rightarrow> http_client \<Rightarrow> ('d, 'c) poller \<Rightarrow> 'd policy_bundle option result" where
  "pollOnce sha256hex client p =
     (if po_url p = [] then Inr None
      else case LoadBundleFromURL sha256hex client (po_url p) of
        Inl err \<Rightarrow> Inr None
      | Inr b \<Rightarrow>
          let staged = Inr (if po_onStage p then Some b else None)
          in (case po_engine p of
                None \<Rightarrow> staged
              | Some e \<Rightarrow>
                  (case eng_Hash e of
                     Inl panic \<Rightarrow> Inl panic
                   | Inr current \<Rightarrow> if bHash b = current then Inr None else staged)))"

section \<open>The hot reloader\<close>

record ('d, 'c) hot_reloader =
  hr_url :: string
  hr_interval :: duration
  hr_engine :: "('d, 'c) opa_engine option"
  hr_swaps :: i64
  hr_validate :: "('d policy_bundle \<Rightarrow> gerror option) option"

definition defaultValidate :: "('d, 'm, 'c) opa \<Rightarrow> 'd policy_bundle \<Rightarrow> gerror option" where
  "defaultValidate opa b =
     (if bSource b = [] then Some (ErrorNew ''bundle has no rego source'')
      else case compileModules opa (bSource b) of Inl err \<Rightarrow> Some err | Inr _ \<Rightarrow> None)"

definition NewHotReloader ::
  "('d, 'm, 'c) opa \<Rightarrow> env \<Rightarrow> string \<Rightarrow> duration \<Rightarrow> ('d, 'c) opa_engine option \<Rightarrow> ('d, 'c) hot_reloader" where
  "NewHotReloader opa getenv url interval eng =
     \<lparr>hr_url = url, hr_interval = poll_interval getenv ''POLICY_HOT_RELOAD_INTERVAL'' interval,
      hr_engine = eng, hr_swaps = 0, hr_validate = Some (defaultValidate opa)\<rparr>"

definition WithValidate ::
  "('d policy_bundle \<Rightarrow> gerror option) option \<Rightarrow> ('d, 'c) hot_reloader \<Rightarrow> ('d, 'c) hot_reloader" where
  "WithValidate validate h = h\<lparr>hr_validate := validate\<rparr>"

definition Swaps :: "('d, 'c) hot_reloader \<Rightarrow> i64" where
  "Swaps h = hr_swaps h"

definition hr_activate :: "('d, 'm, 'c) opa \<Rightarrow> 'd policy_bundle \<Rightarrow> ('d, 'c) hot_reloader \<Rightarrow> ('d, 'c) hot_reloader" where
  "hr_activate opa b h =
     (let verr = (case hr_validate h of None \<Rightarrow> None | Some validate \<Rightarrow> validate b)
      in case verr of
        Some err \<Rightarrow> h
      | None \<Rightarrow>
          (case hr_engine h of
             None \<Rightarrow> h
           | Some e \<Rightarrow> h\<lparr>hr_engine := Some (Swap opa (Some b) e), hr_swaps := hr_swaps h + 1\<rparr>))"

definition reloadOnce ::
  "(string \<Rightarrow> string) \<Rightarrow> ('d, 'm, 'c) opa \<Rightarrow> http_client \<Rightarrow> ('d, 'c) hot_reloader \<Rightarrow> ('d, 'c) hot_reloader result" where
  "reloadOnce sha256hex opa client h =
     (if hr_url h = [] then Inr h
      else case LoadBundleFromURL sha256hex client (hr_url h) of
        Inl err \<Rightarrow> Inr h
      | Inr b \<Rightarrow>
          (case hr_engine h of
             None \<Rightarrow> Inr (hr_activate opa b h)
           | Some e \<Rightarrow>
               (case eng_Hash e of
                  Inl panic \<Rightarrow> Inl panic
                | Inr current \<Rightarrow> if bHash b = current then Inr h else Inr (hr_activate opa b h))))"

section \<open>The bundle hash\<close>

lemma sort_cong_mset: "mset xs = mset ys \<Longrightarrow> sort xs = sort (ys :: 'a::linorder list)"
  by (rule properties_for_sort) simp_all

lemma map_of_cong_mset:
  assumes "distinct (map fst m)" and "mset m = mset m'"
  shows "map_of m = map_of m'"
proof -
  from assms(2) have s: "set m = set m'" by (rule mset_eq_setD)
  from assms(2) have "mset (map fst m) = mset (map fst m')" by simp
  with assms(1) have d': "distinct (map fst m')" by (metis mset_eq_imp_distinct_iff)
  show ?thesis using assms(1) d' s by (rule map_of_inject_set [THEN iffD2])
qed

lemma section_bytes_cong_mset:
  assumes "distinct (map fst m)" and "mset m = mset m'"
  shows "section_bytes m = section_bytes m'"
proof -
  have "mset (map fst m) = mset (map fst m')" using assms(2) by simp
  then have "sort (map fst m) = sort (map fst m')" by (rule sort_cong_mset)
  with map_of_cong_mset [OF assms] show ?thesis by (simp add: section_bytes_def)
qed

lemma map_fst_marshal [simp]: "map fst (map (\<lambda>(k, v). (k, f v)) data) = map fst data"
  by (induction data) auto

definition entry_bytes :: "string \<times> string \<Rightarrow> string" where
  "entry_bytes e = fst e @ [nul] @ snd e @ [nul]"

definition sorted_entries :: "(string \<times> string) list \<Rightarrow> (string \<times> string) list" where
  "sorted_entries m = map (\<lambda>k. (k, the (map_of m k))) (sort (map fst m))"

definition nul_free :: "(string \<times> string) list \<Rightarrow> bool" where
  "nul_free m \<longleftrightarrow> list_all (\<lambda>(k, v). nul \<notin> set k \<and> nul \<notin> set v) m"

lemma section_bytes_entries: "section_bytes m = concat (map entry_bytes (sorted_entries m))"
  by (simp add: section_bytes_def sorted_entries_def entry_bytes_def comp_def)

lemma split_at_nul:
  assumes "x @ nul # s = y @ nul # t" and "nul \<notin> set x" and "nul \<notin> set y"
  shows "x = y \<and> s = t"
proof -
  have "takeWhile (\<lambda>c. c \<noteq> nul) (x @ nul # s) = x" "takeWhile (\<lambda>c. c \<noteq> nul) (y @ nul # t) = y"
    using assms(2,3) by (auto simp: takeWhile_tail)
  with assms(1) show ?thesis by auto
qed

lemma entries_inject:
  assumes "concat (map entry_bytes ps) = concat (map entry_bytes qs)" and "nul_free ps" and "nul_free qs"
  shows "ps = qs"
  using assms
proof (induction ps arbitrary: qs)
  case Nil
  then show ?case by (cases qs) (auto simp: entry_bytes_def)
next
  case (Cons p ps)
  then obtain q qs' where qs: "qs = q # qs'" by (cases qs) (auto simp: entry_bytes_def)
  obtain k v where p: "p = (k, v)" by (cases p)
  obtain k' v' where q: "q = (k', v')" by (cases q)
  have free: "nul \<notin> set k" "nul \<notin> set v" "nul \<notin> set k'" "nul \<notin> set v'" "nul_free ps" "nul_free qs'"
    using Cons.prems(2,3) by (auto simp: p q qs nul_free_def)
  have "k @ nul # (v @ nul # concat (map entry_bytes ps)) = k' @ nul # (v' @ nul # concat (map entry_bytes qs'))"
    using Cons.prems(1) by (simp add: p q qs entry_bytes_def [of "(_, _)"])
  then have "k = k'" and "v @ nul # concat (map entry_bytes ps) = v' @ nul # concat (map entry_bytes qs')"
    using split_at_nul free by blast+
  then have "v = v'" and "concat (map entry_bytes ps) = concat (map entry_bytes qs')"
    using split_at_nul free by blast+
  with \<open>k = k'\<close> Cons.IH free show ?case by (simp add: p q qs)
qed

lemma sorted_entries_map_of:
  "map_of (sorted_entries m) = map_of m"
proof
  fix k
  show "map_of (sorted_entries m) k = map_of m k"
  proof (cases "k \<in> fst ` set m")
    case True
    then obtain v where "map_of m k = Some v" by (metis domIff dom_map_of_conv_image_fst not_None_eq)
    with True show ?thesis by (simp add: sorted_entries_def map_of_map_restrict restrict_map_def)
  next
    case False
    then have "map_of m k = None" by (simp add: map_of_eq_None_iff)
    with False show ?thesis by (simp add: sorted_entries_def map_of_map_restrict restrict_map_def)
  qed
qed

lemma sorted_entries_nul_free:
  assumes "nul_free m" shows "nul_free (sorted_entries m)"
proof -
  have "nul \<notin> set k \<and> nul \<notin> set (the (map_of m k))" if "k \<in> fst ` set m" for k
  proof -
    from that obtain v where "map_of m k = Some v" by (metis domIff dom_map_of_conv_image_fst not_None_eq)
    moreover from this have "(k, v) \<in> set m" by (rule map_of_SomeD)
    ultimately show ?thesis using assms by (auto simp: nul_free_def list_all_iff)
  qed
  then show ?thesis by (auto simp: nul_free_def sorted_entries_def list_all_iff)
qed

lemma section_bytes_inject:
  assumes "section_bytes m = section_bytes m'" and "nul_free m" and "nul_free m'"
  shows "map_of m = map_of m'"
proof -
  have "sorted_entries m = sorted_entries m'"
    using assms by (auto simp: section_bytes_entries intro: entries_inject sorted_entries_nul_free)
  then show ?thesis by (metis sorted_entries_map_of)
qed

text \<open>
  The bundle hash does not depend on the order in which Go iterates over the source and data maps:
  two iteration orders of the same maps (whose keys are distinct) give the same hash.
\<close>
theorem hashBundle_order_invariant:
  assumes "distinct (map fst src)" and "distinct (map fst data)"
    and "mset src = mset src'" and "mset data = mset data'"
  shows "hashBundle sha256hex marshal src data = hashBundle sha256hex marshal src' data'"
proof -
  let ?enc = "map (\<lambda>(k, v). (k, marshal v))"
  have "section_bytes (?enc data) = section_bytes (?enc data')"
    by (rule section_bytes_cong_mset) (use assms(2,4) in \<open>simp_all only: map_fst_marshal mset_map\<close>)
  with section_bytes_cong_mset [OF assms(1,3)] show ?thesis
    by (simp add: hashBundle_def bundle_bytes_def)
qed

theorem hashBundle_order_invariant_witness:
  "hashBundle id id [(''b'', ''2''), (''a'', ''1'')] [] = hashBundle id id [(''a'', ''1''), (''b'', ''2'')] []"
  by (rule hashBundle_order_invariant) simp_all

text \<open>
  As long as SHA-256 does not collide on the two encodings, two rule sets without data that have
  the same bundle hash have the same files with the same contents, provided no file name and no
  content holds a NUL byte (the separator of the encoding).
\<close>
theorem hashBundle_identifies_source:
  assumes "hashBundle sha256hex marshal src [] = hashBundle sha256hex marshal src' []"
    and "sha256hex (bundle_bytes marshal src []) = sha256hex (bundle_bytes marshal src' [])
           \<longrightarrow> bundle_bytes marshal src [] = bundle_bytes marshal src' []"
    and "nul_free src" and "nul_free src'"
  shows "map_of src = map_of src'"
proof (rule section_bytes_inject [OF _ assms(3,4)])
  show "section_bytes src = section_bytes src'"
    using assms(1,2) by (simp add: hashBundle_def bundle_bytes_def)
qed

theorem hashBundle_identifies_source_witness:
  "map_of [(''a'', ''1''), (''b'', ''2'')] = map_of [(''b'', ''2''), (''a'', ''1'')]"
  by (rule hashBundle_identifies_source [where sha256hex = id and marshal = id])
     (simp_all add: hashBundle_def bundle_bytes_def section_bytes_def nul_free_def nul_def)

text \<open>
  The encoding does not separate sources from data and contents from names when a content holds
  the separator: a one-file bundle whose content embeds a NUL byte has the hash of a two-file bundle,
  and a source file whose text is the JSON encoding of a value has the hash of that data entry.
\<close>
theorem hashBundle_confusions:
  assumes "f < g"
  shows "hashBundle sha256hex marshal [(f, x @ [nul] @ g @ [nul] @ y)] [] = hashBundle sha256hex marshal [(f, x), (g, y)] []
     \<and> hashBundle sha256hex marshal [(f, x), (g, marshal v)] [] = hashBundle sha256hex marshal [(f, x)] [(g, v)]"
  using assms less_imp_le [OF assms] by (auto simp: hashBundle_def bundle_bytes_def section_bytes_def insort_key.simps)

theorem hashBundle_confusions_witness:
  "hashBundle id id [(''a'', ''1'' @ [nul] @ ''b'' @ [nul] @ ''2'')] [] = hashBundle id id [(''a'', ''1''), (''b'', ''2'')] []
   \<and> hashBundle id id [(''a'', ''1''), (''b'', id ''2'')] [] = hashBundle id id [(''a'', ''1'')] [(''b'', ''2'')]"
  by (rule hashBundle_confusions) simp

section \<open>Decisions\<close>

lemma resDecision_decide [simp]:
  "resDecision (decide allow mr deny score rules) =
     (if deny then ''deny'' else if mr then ''manual_review'' else if allow then ''allow'' else ''manual_review'')"
  by (simp add: decide_def)

lemma decide_fields [simp]:
  "resAppliedRules (decide allow mr deny score rules) = rules" "resRiskScore (decide allow mr deny score rules) = score"
  "resAllow (decide allow mr deny score rules) = allow" "resManualReview (decide allow mr deny score rules) = mr"
  "resDeny (decide allow mr deny score rules) = deny"
  by (simp_all add: decide_def)

lemma engine_run_Inr:
  "engine_run opa c st input = Inr r \<longleftrightarrow>
     (\<exists>allow mr deny. evalBool opa c st input ''data.policy.decisions.allow'' = Inr allow
        \<and> evalBool opa c st input ''data.policy.decisions.manual_review'' = Inr mr
        \<and> evalBool opa c st input ''data.policy.decisions.deny'' = Inr deny
        \<and> r = decide allow mr deny
                (case evalFloat opa c st input ''data.policy.decisions.risk_score'' of Inl err \<Rightarrow> Fin False 0 | Inr x \<Rightarrow> x)
                (appliedRules allow mr deny))"
  unfolding engine_run_def Let_def by (auto split: sum.splits)

text \<open>The compiler and the data that an evaluation of engine \<open>e\<close> uses.\<close>

definition eng_snapshot :: "('d, 'm, 'c) opa \<Rightarrow> ('d, 'c) opa_engine \<Rightarrow> ('c \<times> (string \<times> 'd) list) option" where
  "eng_snapshot opa e =
     (case eng_compiler e of
        Some c \<Rightarrow> Some (c, eng_store e)
      | None \<Rightarrow>
          (case eng_bundle e of
             None \<Rightarrow> None
           | Some b \<Rightarrow> (case compileModules opa (bSource b) of Inl _ \<Rightarrow> None | Inr c \<Rightarrow> Some (c, bData b))))"

lemma engine_Evaluate_snapshot:
  "engine_Evaluate opa e input = Inr r \<longleftrightarrow> (\<exists>c st. eng_snapshot opa e = Some (c, st) \<and> engine_run opa c st input = Inr r)"
  unfolding engine_Evaluate_def eng_snapshot_def normalizeData_def by (auto split: option.splits sum.splits)

text \<open>
  C4: An evaluation answers allow only if the policy says allow and neither manual_review nor deny:
  deny takes precedence over manual_review, which takes precedence over allow, and a policy that
  answers nothing leads to manual_review. An evaluation error is never turned into a decision.
\<close>
theorem engine_decision_precedence:
  assumes "engine_Evaluate opa e input = Inr r"
  shows "\<exists>c st allow mr deny. eng_snapshot opa e = Some (c, st)
     \<and> evalBool opa c st input ''data.policy.decisions.allow'' = Inr allow
     \<and> evalBool opa c st input ''data.policy.decisions.manual_review'' = Inr mr
     \<and> evalBool opa c st input ''data.policy.decisions.deny'' = Inr deny
     \<and> (resDecision r = ''deny'' \<longleftrightarrow> deny)
     \<and> (resDecision r = ''allow'' \<longleftrightarrow> allow \<and> \<not> mr \<and> \<not> deny)
     \<and> (resDecision r = ''manual_review'' \<longleftrightarrow> \<not> deny \<and> (mr \<or> \<not> allow))"
proof -
  from assms obtain c st where s: "eng_snapshot opa e = Some (c, st)" and r: "engine_run opa c st input = Inr r"
    by (auto simp: engine_Evaluate_snapshot)
  from r obtain allow mr deny score rules where q:
    "evalBool opa c st input ''data.policy.decisions.allow'' = Inr allow"
    "evalBool opa c st input ''data.policy.decisions.manual_review'' = Inr mr"
    "evalBool opa c st input ''data.policy.decisions.deny'' = Inr deny"
    "r = decide allow mr deny score rules"
    unfolding engine_run_Inr by blast
  from q(4) have "(resDecision r = ''deny'' \<longleftrightarrow> deny) \<and> (resDecision r = ''allow'' \<longleftrightarrow> allow \<and> \<not> mr \<and> \<not> deny)
     \<and> (resDecision r = ''manual_review'' \<longleftrightarrow> \<not> deny \<and> (mr \<or> \<not> allow))"
    by simp
  with s q(1-3) show ?thesis by blast
qed

text \<open>A concrete OPA: every module parses to its text, compiles unless it is marked broken, and allows everything.\<close>

definition demo_opa :: "(string, string, string) opa" where
  "demo_opa = \<lparr>ParseModule = (\<lambda>name body. Inr body),
     Compile = (\<lambda>ms. if list_all (\<lambda>(n, m). m \<noteq> ''broken'') ms then Inr (concat (map snd ms)) else Inl ''1 error''),
     RegoEval = (\<lambda>c st input q. Inr [[RBool (q = ''data.policy.decisions.'' @ c)]])\<rparr>"

definition demo_bundle :: "string \<Rightarrow> string policy_bundle" where
  "demo_bundle s = \<lparr>bVersion = s, bHash = s, bSource = [(''decisions.rego'', s)], bData = []\<rparr>"

definition demo_input :: engine_input where
  "demo_input = \<lparr>in_user_id = ''u'', in_amount_usd = Fin False 1, in_kyt_verdict = [], in_fraud_score = Fin False 0,
     in_kyc_status = [], in_dest_address = [], in_whitelisted = True, in_requires_2fa = False, in_session_2fa_passed = False\<rparr>"

lemmas demo_defs = demo_opa_def demo_bundle_def compileModules_def rebuild_def NewOPAEngine_def Swap_def
  normalizeData_def engine_Evaluate_def engine_run_def evalBool_def evalFloat_def truthy_def scoreFloat_def
  appliedRules_def eng_snapshot_def eng_Version_def eng_Hash_def

lemma demo_allow:
  "engine_Evaluate demo_opa (NewOPAEngine demo_opa (Some (demo_bundle ''allow''))) demo_input
     = Inr (decide True False False (Fin False 0) [''allow.clean''])"
  by (simp add: demo_defs Let_def)

theorem engine_decision_precedence_witness:
  "\<exists>c st allow mr deny. eng_snapshot demo_opa (NewOPAEngine demo_opa (Some (demo_bundle ''allow''))) = Some (c, st)
     \<and> evalBool demo_opa c st demo_input ''data.policy.decisions.allow'' = Inr allow
     \<and> evalBool demo_opa c st demo_input ''data.policy.decisions.manual_review'' = Inr mr
     \<and> evalBool demo_opa c st demo_input ''data.policy.decisions.deny'' = Inr deny
     \<and> (resDecision (decide True False False (Fin False 0) [''allow.clean'']) = ''deny'' \<longleftrightarrow> deny)
     \<and> (resDecision (decide True False False (Fin False 0) [''allow.clean'']) = ''allow'' \<longleftrightarrow> allow \<and> \<not> mr \<and> \<not> deny)
     \<and> (resDecision (decide True False False (Fin False 0) [''allow.clean'']) = ''manual_review'' \<longleftrightarrow> \<not> deny \<and> (mr \<or> \<not> allow))"
  by (rule engine_decision_precedence [OF demo_allow])

section \<open>Swapping bundles\<close>

lemma Swap_compiles:
  assumes "compileModules opa (bSource b) = Inr c"
  shows "Swap opa (Some b) e = NewOPAEngine opa (Some b)"
  using assms by (cases e) (simp add: Swap_def NewOPAEngine_def rebuild_def)

text \<open>
  Swapping in a bundle whose rules do not compile changes the version and hash the engine reports,
  but the engine keeps deciding by the rules and data of the bundle before: decisions are attributed to a
  version that never took effect. A bundle that compiles replaces rules, data, version and hash together.
\<close>
theorem Swap_reported_version:
  assumes "eng_compiler e = Some c"
  shows "eng_Version (Swap opa (Some b) e) = Inr (bVersion b) \<and> eng_Hash (Swap opa (Some b) e) = Inr (bHash b)
     \<and> (if \<exists>c'. compileModules opa (bSource b) = Inr c'
        then Swap opa (Some b) e = NewOPAEngine opa (Some b)
        else (\<forall>input. engine_Evaluate opa (Swap opa (Some b) e) input = engine_Evaluate opa e input))"
proof (cases "compileModules opa (bSource b)")
  case (Inl err)
  then have "Swap opa (Some b) e = e\<lparr>eng_bundle := Some b\<rparr>" by (simp add: Swap_def rebuild_def)
  with Inl assms show ?thesis by (simp add: eng_Version_def eng_Hash_def engine_Evaluate_def)
next
  case (Inr c')
  with Swap_compiles [OF Inr, of e] show ?thesis
    by (simp add: eng_Version_def eng_Hash_def NewOPAEngine_def rebuild_def)
qed

theorem Swap_reported_version_witness:
  "let e = NewOPAEngine demo_opa (Some (demo_bundle ''allow'')); e' = Swap demo_opa (Some (demo_bundle ''broken'')) e
   in eng_Version e' = Inr ''broken'' \<and> (\<forall>input. engine_Evaluate demo_opa e' input = engine_Evaluate demo_opa e input)"
proof -
  have c: "eng_compiler (NewOPAEngine demo_opa (Some (demo_bundle ''allow''))) = Some ''allow''"
    by (simp add: demo_defs)
  have "\<nexists>c'. compileModules demo_opa (bSource (demo_bundle ''broken'')) = Inr c'"
    by (simp add: demo_defs)
  with Swap_reported_version [OF c, of demo_opa "demo_bundle ''broken''"] show ?thesis
    by (simp add: demo_bundle_def)
qed

section \<open>In-flight evaluations\<close>

text \<open>
  Evaluations and swaps interleave. An evaluation reads bundle, compiler and store under the read lock
  (\<open>Begin\<close>) and then runs without the lock (\<open>Finish\<close>); a swap holds the write lock for its whole body.
\<close>

record ('d, 'c) eng_world =
  ew_engine :: "('d, 'c) opa_engine"
  ew_inflight :: "nat \<rightharpoonup> ('d, 'c) opa_engine \<times> engine_input"
  ew_done :: "nat \<rightharpoonup> engine_result result"

inductive eng_step :: "('d, 'm, 'c) opa \<Rightarrow> ('d, 'c) eng_world \<Rightarrow> ('d, 'c) eng_world \<Rightarrow> bool" for opa where
  Begin: "ew_inflight w t = None \<Longrightarrow> ew_done w t = None \<Longrightarrow>
    eng_step opa w (w\<lparr>ew_inflight := (ew_inflight w)(t \<mapsto> (ew_engine w, input))\<rparr>)"
| SwapStep: "eng_step opa w (w\<lparr>ew_engine := Swap opa b (ew_engine w)\<rparr>)"
| Finish: "ew_inflight w t = Some (e, input) \<Longrightarrow>
    eng_step opa w (w\<lparr>ew_inflight := (ew_inflight w)(t := None), ew_done := (ew_done w)(t \<mapsto> engine_Evaluate opa e input)\<rparr>)"

inductive_cases eng_stepE [elim!]: "eng_step opa w w'"

abbreviation eng_steps :: "('d, 'm, 'c) opa \<Rightarrow> ('d, 'c) eng_world \<Rightarrow> ('d, 'c) eng_world \<Rightarrow> bool" where
  "eng_steps opa \<equiv> (eng_step opa)\<^sup>*\<^sup>*"

lemma eng_step_isolated:
  assumes "eng_step opa w w'"
    and "ew_inflight w t = Some (e, input) \<and> ew_done w t = None \<or> ew_inflight w t = None \<and> ew_done w t = Some (engine_Evaluate opa e input)"
  shows "ew_inflight w' t = Some (e, input) \<and> ew_done w' t = None \<or> ew_inflight w' t = None \<and> ew_done w' t = Some (engine_Evaluate opa e input)"
  using assms by (cases rule: eng_step.cases) auto


definition demo_world :: "(string, string) eng_world" where
  "demo_world = \<lparr>ew_engine = NewOPAEngine demo_opa (Some (demo_bundle ''deny'')),
     ew_inflight = [0 \<mapsto> (NewOPAEngine demo_opa (Some (demo_bundle ''allow'')), demo_input)], ew_done = Map.empty\<rparr>"


section \<open>Hot reload\<close>

lemma LoadBundleFromURL_Inr:
  "LoadBundleFromURL sha256hex client url = Inr b \<longleftrightarrow>
     (\<exists>resp body. url \<noteq> [] \<and> NewRequest client url = None \<and> http_Do client url = Inr resp \<and> StatusCode resp div 100 = 2
        \<and> resp_body resp = Inr body
        \<and> b = \<lparr>bVersion = sha256hex body, bHash = sha256hex body,
               bSource = (if isRegoContent (ContentType resp) body then [(''staged.rego'', body)] else []), bData = []\<rparr>)"
  unfolding LoadBundleFromURL_def by (auto split: option.splits sum.splits if_splits)

lemma defaultValidate_None:
  "defaultValidate opa b = None \<longleftrightarrow> bSource b \<noteq> [] \<and> (\<exists>c. compileModules opa (bSource b) = Inr c)"
  unfolding defaultValidate_def by (auto split: sum.splits)

text \<open>
  The reloader's own loop: one round per tick, with whatever the bundle service answers at that tick.
\<close>

inductive reload_reach :: "(string \<Rightarrow> string) \<Rightarrow> ('d, 'm, 'c) opa \<Rightarrow> ('d, 'c) hot_reloader \<Rightarrow> ('d, 'c) hot_reloader \<Rightarrow> bool"
  for sha256hex opa h0 where
  reload_refl: "reload_reach sha256hex opa h0 h0"
| reload_tick: "reload_reach sha256hex opa h0 h \<Longrightarrow> reloadOnce sha256hex opa client h = Inr h' \<Longrightarrow> reload_reach sha256hex opa h0 h'"

text \<open>The invariant: the reloader's engine is a fresh engine on the bundle it reports.\<close>

definition reload_ok :: "('d, 'm, 'c) opa \<Rightarrow> 'd policy_bundle \<Rightarrow> ('d, 'c) hot_reloader \<Rightarrow> bool" where
  "reload_ok opa b0 h \<longleftrightarrow>
     hr_validate h = Some (defaultValidate opa) \<and>
     (\<exists>b. hr_engine h = Some (NewOPAEngine opa (Some b))
        \<and> (b = b0 \<or> (\<exists>c src. compileModules opa (bSource b) = Inr c \<and> bSource b = [(''staged.rego'', src)] \<and> bData b = [])))"

lemma eng_bundle_New [simp]: "eng_bundle (NewOPAEngine opa b) = b"
  by (cases b) (auto simp: NewOPAEngine_def rebuild_def split: sum.splits)

lemma eng_Hash_New [simp]: "eng_Hash (NewOPAEngine opa (Some b)) = Inr (bHash b)"
  by (simp add: eng_Hash_def)

lemma hr_activate_ok:
  assumes "reload_ok opa b0 h" and "LoadBundleFromURL sha256hex client url = Inr b"
  shows "reload_ok opa b0 (hr_activate opa b h)"
proof (cases "defaultValidate opa b")
  case (Some err)
  with assms(1) show ?thesis by (simp add: hr_activate_def reload_ok_def)
next
  case None
  then obtain c where c: "compileModules opa (bSource b) = Inr c" and ne: "bSource b \<noteq> []"
    by (auto simp: defaultValidate_None)
  from assms(2) ne have "\<exists>src. bSource b = [(''staged.rego'', src)]" and "bData b = []"
    by (auto simp: LoadBundleFromURL_Inr split: if_splits)
  moreover from assms(1) obtain b1 where "hr_validate h = Some (defaultValidate opa)"
    and "hr_engine h = Some (NewOPAEngine opa (Some b1))" by (auto simp: reload_ok_def)
  ultimately show ?thesis
    using None c Swap_compiles [OF c] by (auto simp: hr_activate_def reload_ok_def)
qed

lemma reloadOnce_ok:
  assumes "reload_ok opa b0 h"
  shows "\<exists>h'. reloadOnce sha256hex opa client h = Inr h' \<and> reload_ok opa b0 h'"
proof -
  from assms obtain b where e: "hr_engine h = Some (NewOPAEngine opa (Some b))" by (auto simp: reload_ok_def)
  show ?thesis
    using assms hr_activate_ok [OF assms] unfolding reloadOnce_def
    by (auto simp: e split: sum.splits)
qed

lemma reload_reach_ok:
  assumes "reload_reach sha256hex opa (NewHotReloader opa getenv url interval (Some (NewOPAEngine opa (Some b0)))) h"
  shows "reload_ok opa b0 h"
  using assms
proof induction
  case reload_refl
  show ?case by (auto simp: reload_ok_def NewHotReloader_def)
next
  case (reload_tick h client h')
  with reloadOnce_ok [OF reload_tick.IH, of sha256hex client] show ?case by simp
qed

text \<open>
  C5: The hot reloader never leaves the engine in a mixed state and never panics: after any number of
  rounds, with any answers of the bundle service, the engine is exactly a fresh engine on the bundle it
  reports, which is the initial one or a downloaded Rego file that compiles (and then has no data).
\<close>
theorem hot_reload_consistent:
  assumes "reload_reach sha256hex opa (NewHotReloader opa getenv url interval (Some (NewOPAEngine opa (Some b0)))) h"
  shows "(\<exists>b. hr_engine h = Some (NewOPAEngine opa (Some b))
       \<and> (b = b0 \<or> (\<exists>c src. compileModules opa (bSource b) = Inr c \<and> bSource b = [(''staged.rego'', src)] \<and> bData b = [])))
     \<and> (\<exists>h'. reloadOnce sha256hex opa client h = Inr h')"
  using reload_reach_ok [OF assms] reloadOnce_ok [OF reload_reach_ok [OF assms], of sha256hex client] by (auto simp: reload_ok_def)

text \<open>A bundle service that answers every request with the given body as plain text.\<close>

definition demo_http :: "string \<Rightarrow> string \<Rightarrow> http_client" where
  "demo_http ctype body = \<lparr>NewRequest = (\<lambda>_. None), http_Do = (\<lambda>_. Inr \<lparr>StatusCode = 200, ContentType = ctype, resp_body = Inr body\<rparr>)\<rparr>"

theorem hot_reload_consistent_witness:
  "let h = NewHotReloader demo_opa (\<lambda>_. []) ''http://opa'' 0 (Some (NewOPAEngine demo_opa (Some (demo_bundle ''allow''))))
   in (\<exists>b. hr_engine h = Some (NewOPAEngine demo_opa (Some b))
       \<and> (b = demo_bundle ''allow'' \<or> (\<exists>c src. compileModules demo_opa (bSource b) = Inr c \<and> bSource b = [(''staged.rego'', src)] \<and> bData b = [])))
     \<and> (\<exists>h'. reloadOnce id demo_opa (demo_http ''text/plain'' ''package x'') h = Inr h')"
  unfolding Let_def by (rule hot_reload_consistent, rule reload_refl)

text \<open>
  A bundle that is served unchanged is activated at most once: a second round on the same answer
  leaves the reloader, its engine and its swap counter as they are.
\<close>
theorem reloadOnce_idempotent:
  assumes "reloadOnce sha256hex opa client h = Inr h'" and "hr_engine h = Some e" and "eng_bundle e = Some b"
  shows "reloadOnce sha256hex opa client h' = Inr h'"
proof (cases "h' = h")
  case True
  with assms(1) show ?thesis by simp
next
  case False
  with assms obtain b' where b': "LoadBundleFromURL sha256hex client (hr_url h) = Inr b'"
    and url: "hr_url h \<noteq> []" and h': "h' = hr_activate opa b' h"
    by (auto simp: reloadOnce_def eng_Hash_def split: if_splits sum.splits)
  with False assms(2) have act: "hr_engine h' = Some (Swap opa (Some b') e)" "hr_url h' = hr_url h"
    by (auto simp: hr_activate_def Let_def split: option.splits)
  have "eng_Hash (Swap opa (Some b') e) = Inr (bHash b')"
    by (auto simp: Swap_def rebuild_def eng_Hash_def split: sum.splits)
  with act b' url show ?thesis by (simp add: reloadOnce_def)
qed

section \<open>Detecting Rego text\<close>

text \<open>The reference definition: a newline ends a line, and the last line need not be terminated.\<close>

fun text_lines :: "string \<Rightarrow> string list" where
  "text_lines [] = []"
| "text_lines (c # cs) =
     (if c = newline then [] # text_lines cs
      else case text_lines cs of [] \<Rightarrow> [[c]] | l # ls \<Rightarrow> (c # l) # ls)"

lemma text_lines_append:
  "newline \<notin> set w \<Longrightarrow>
   text_lines (w @ rest) = (case text_lines rest of [] \<Rightarrow> if w = [] then [] else [w] | l # ls \<Rightarrow> (w @ l) # ls)"
  by (induction w) (auto split: list.splits)

lemma splitLines_loop_lines:
  assumes "start \<le> i" and "i \<le> length b" and "newline \<notin> set (take (i - start) (drop start b))"
  shows "splitLines_loop b i start out = out @ text_lines (drop start b)"
  using assms
proof (induction b i start out rule: splitLines_loop.induct)
  case (1 b i start out)
  let ?w = "take (i - start) (drop start b)"
  have split: "drop start b = ?w @ drop i b"
    using "1.prems"(1) by (metis append_take_drop_id drop_drop le_add_diff_inverse2)
  show ?case
  proof (cases "i < length b")
    case False
    with "1.prems"(2) have "i = length b" by simp
    with text_lines_append [OF "1.prems"(3), of "[]"] show ?thesis
      by (simp add: splitLines_loop.simps [of b "length b"])
  next
    case lt: True
    then have tl: "drop i b = b ! i # drop (i + 1) b" by (simp add: Cons_nth_drop_Suc)
    show ?thesis
    proof (cases "b ! i = newline")
      case True
      have "text_lines (drop start b) = ?w # text_lines (drop (i + 1) b)"
        using text_lines_append [OF "1.prems"(3), of "drop i b"] True
        by (subst split, subst tl) (simp add: tl)
      with "1.IH"(1) [OF lt True] lt True show ?thesis by (simp add: splitLines_loop.simps [of b i])
    next
      case False
      have "take (i + 1 - start) (drop start b) = ?w @ [b ! i]"
        using "1.prems"(1) lt by (simp add: Suc_diff_le take_Suc_conv_app_nth)
      with "1.IH"(2) [OF lt False] "1.prems" lt False show ?thesis
        by (simp add: splitLines_loop.simps [of b i])
    qed
  qed
qed

lemma splitLines_text_lines: "splitLines b = text_lines b"
  using splitLines_loop_lines [of 0 0 b "[]"] by (simp add: splitLines_def)

lemma trimLeftSpace_dropWhile:
  "trimLeftSpace b = dropWhile (\<lambda>c. c \<in> {CHR '' '', CHR 0x09, CHR 0x0D}) b"
  by (induction b) auto

lemma startsWith_prefix: "startsWith b p \<longleftrightarrow> prefix p b"
  unfolding startsWith_def by (auto simp: prefix_def take_all_iff) (metis append_take_drop_id)

lemma text_lines_Nil [simp]: "text_lines b = [] \<longleftrightarrow> b = []"
  by (cases b) (auto split: list.splits)

lemma text_lines_join:
  "concat (map (\<lambda>l. l @ [newline]) (text_lines b)) = (if b = [] \<or> last b = newline then b else b @ [newline])"
  by (induction b rule: text_lines.induct) (auto split: list.splits)

lemma text_lines_no_newline: "l \<in> set (text_lines b) \<Longrightarrow> newline \<notin> set l"
  by (induction b arbitrary: l rule: text_lines.induct) (auto split: list.splits if_splits)

text \<open>
  The index-based line splitter computes the lines of the text: no line holds a newline, and
  terminating every line restores the body, up to the terminator of an unterminated last line.
\<close>
theorem splitLines_correct:
  "splitLines b = text_lines b \<and> list_all (\<lambda>l. newline \<notin> set l) (splitLines b)
   \<and> concat (map (\<lambda>l. l @ [newline]) (splitLines b)) = (if b = [] \<or> last b = newline then b else b @ [newline])"
  using text_lines_no_newline [of _ b] text_lines_join [of b]
  by (auto simp: splitLines_text_lines list_all_iff)

text \<open>Lines that hold nothing but blanks or a comment.\<close>

definition skip_line :: "string \<Rightarrow> bool" where
  "skip_line l \<longleftrightarrow> trimLeftSpace l = [] \<or> hd (trimLeftSpace l) = CHR ''#''"

lemma first_code_line_dropWhile:
  "first_code_line ls = (case dropWhile skip_line ls of [] \<Rightarrow> False | l # _ \<Rightarrow> prefix ''package '' (trimLeftSpace l))"
  by (induction ls) (auto simp: skip_line_def startsWith_prefix Let_def)

text \<open>
  A download is taken for Rego exactly if it has one of the two bare content types and its first line
  that is neither blank nor a comment starts, after blanks, with \<^verbatim>\<open>package\<close> and a space.
  In particular a content type with a charset parameter is never taken for Rego.
\<close>
theorem isRegoContent_iff:
  "isRegoContent ct body \<longleftrightarrow>
     (ct = ''text/plain'' \<or> ct = ''application/octet-stream'') \<and>
     (case dropWhile skip_line (text_lines body) of [] \<Rightarrow> False | l # _ \<Rightarrow> prefix ''package '' (trimLeftSpace l))"
  unfolding isRegoContent_def first_code_line_dropWhile splitLines_text_lines by simp

lemma demo_rego: "isRegoContent ''text/plain'' ''package x''"
  by (simp add: isRegoContent_def splitLines_text_lines newline_def startsWith_def)

theorem reloadOnce_idempotent_witness:
  "let h = NewHotReloader demo_opa (\<lambda>_. []) ''http://opa'' 0 (Some (NewOPAEngine demo_opa (Some (demo_bundle ''allow''))));
       b = \<lparr>bVersion = ''package x'', bHash = ''package x'', bSource = [(''staged.rego'', ''package x'')], bData = []\<rparr>;
       h' = hr_activate demo_opa b h
   in hr_swaps h' = 1 \<and> reloadOnce id demo_opa (demo_http ''text/plain'' ''package x'') h' = Inr h'"
proof -
  let ?h = "NewHotReloader demo_opa (\<lambda>_. []) ''http://opa'' 0 (Some (NewOPAEngine demo_opa (Some (demo_bundle ''allow''))))"
  let ?b = "\<lparr>bVersion = ''package x'', bHash = ''package x'', bSource = [(''staged.rego'', ''package x'')], bData = []\<rparr>"
  have load: "LoadBundleFromURL id (demo_http ''text/plain'' ''package x'') ''http://opa'' = Inr ?b"
    by (simp add: LoadBundleFromURL_def demo_http_def demo_rego)
  have "reloadOnce id demo_opa (demo_http ''text/plain'' ''package x'') ?h = Inr (hr_activate demo_opa ?b ?h)"
    unfolding reloadOnce_def NewHotReloader_def by (simp add: load) (simp add: demo_bundle_def)
  moreover have "hr_engine ?h = Some (NewOPAEngine demo_opa (Some (demo_bundle ''allow'')))"
    by (simp add: NewHotReloader_def)
  ultimately have "reloadOnce id demo_opa (demo_http ''text/plain'' ''package x'') (hr_activate demo_opa ?b ?h) = Inr (hr_activate demo_opa ?b ?h)"
    by (rule reloadOnce_idempotent) simp
  moreover have "hr_swaps (hr_activate demo_opa ?b ?h) = 1"
    by (simp add: hr_activate_def NewHotReloader_def defaultValidate_def compileModules_def demo_opa_def)
  ultimately show ?thesis by (simp add: Let_def)
qed

end
