(* ===== verification/Auth.thy ===== *)
theory Auth
  imports Engine
begin

text \<open>
  File \<^verbatim>\<open>internal/api/auth.go\<close>: the authentication configuration, bearer tokens, their claims and scopes, the
  JWKS lookup and the classification of admin paths. Base64, the JSON decoders, the quoting of messages and
  the HTTP client are parameters.
\<close>

section \<open>Package strings\<close>

text \<open>\<^verbatim>\<open>strings.Split\<close> on a one-byte separator.\<close>

fun Split :: "char \<Rightarrow> string \<Rightarrow> string list" where
  "Split sep [] = [[]]"
| "Split sep (c # s) =
     (if c = sep then [] # Split sep s
      else case Split sep s of p # ps \<Rightarrow> (c # p) # ps | [] \<Rightarrow> [[c]])"

text \<open>\<^verbatim>\<open>strings.Fields\<close>: the maximal runs without white space; \<open>cur\<close> is the field being read.\<close>

function Fields_loop :: "string \<Rightarrow> string \<Rightarrow> string list" where
  "Fields_loop cur [] = (if cur = [] then [] else [cur])"
| "Fields_loop cur (c # s) =
     (case strip_one space_runes (c # s) of
        Some rest \<Rightarrow> (if cur = [] then [] else [cur]) @ Fields_loop [] rest
      | None \<Rightarrow> Fields_loop (cur @ [c]) s)"
  by pat_completeness auto
termination
proof (relation "measure (\<lambda>(cur, s). length s)")
  fix cur c s rest
  assume "strip_one space_runes (c # s) = Some rest"
  moreover have "[] \<notin> set space_runes" using space_runes_nonempty by blast
  ultimately have "length rest < length (c # s)" by (rule strip_one_shorter)
  then show "(([], rest), cur, c # s) \<in> measure (\<lambda>(cur, s). length s)" by simp
qed auto

definition Fields :: "string \<Rightarrow> string list" where
  "Fields s = Fields_loop [] s"

definition TrimPrefix :: "string \<Rightarrow> string \<Rightarrow> string" where
  "TrimPrefix s p = (if prefix p s then drop (length p) s else s)"

fun err_Error :: "gerror \<Rightarrow> string" where
  "err_Error (Sentinel m) = m"
| "err_Error (ErrorNew m) = m"
| "err_Error (Errorf p e) = p @ err_Error e"
| "err_Error NilDereference = ''runtime error: invalid memory address or nil pointer dereference''"

section \<open>Configuration and claims\<close>

definition envOr :: "env \<Rightarrow> string \<Rightarrow> string \<Rightarrow> string" where
  "envOr getenv key def = (let v = getenv key in if v \<noteq> [] then v else def)"

datatype jwt_aud = AudString string | AudAnys "string list" | AudStrings "string list" | AudOther

record claims =
  cl_Sub :: string
  cl_Iss :: string
  cl_Aud :: jwt_aud
  cl_Scope :: string
  cl_Scopes :: "string list"
  cl_Exp :: i64
  cl_Iat :: i64

record jwt_header =
  jh_Kid :: string
  jh_Alg :: string

text \<open>
  The library functions a token goes through; \<open>dec_jwks\<close> yields the key ids of a key set, the elements
  of an \<open>AudAnys\<close> list are rendered by \<^verbatim>\<open>fmt.Sprint\<close>.
\<close>

record jwt_lib =
  b64_DecodeString :: "string \<Rightarrow> string result"
  dec_header :: "string \<Rightarrow> jwt_header result"
  dec_claims :: "string \<Rightarrow> claims result"
  dec_jwks :: "string \<Rightarrow> string list result"
  go_quote :: "string \<Rightarrow> string"

definition fetchJWKS :: "jwt_lib \<Rightarrow> http_client \<Rightarrow> string \<Rightarrow> string \<Rightarrow> gerror option" where
  "fetchJWKS lib client url kid =
     (if url = [] then Some (ErrorNew ''jwks url not configured'')
      else case NewRequest client url of
        Some err \<Rightarrow> Some err
      | None \<Rightarrow>
     (case http_Do client url of
        Inl err \<Rightarrow> Some err
      | Inr resp \<Rightarrow>
          if StatusCode resp div 100 \<noteq> 2 then Some (ErrorNew (''jwks status '' @ Itoa (int (StatusCode resp))))
          else (case resp_body resp of
                  Inl err \<Rightarrow> Some err
                | Inr body \<Rightarrow>
                    (case dec_jwks lib body of
                       Inl err \<Rightarrow> Some err
                     | Inr kids \<Rightarrow>
                         if kid \<in> set kids then None else Some (ErrorNew (''kid '' @ go_quote lib kid @ '' not found in jwks''))))))"

record auth_config =
  JWTIssuer :: string
  JWTAudience :: string
  JWKSURL :: string
  AdminScopes :: "string list"
  jwksResolver :: "(string \<Rightarrow> gerror option) option"

definition NewAuthConfig :: "jwt_lib \<Rightarrow> http_client \<Rightarrow> env \<Rightarrow> auth_config" where
  "NewAuthConfig lib client getenv =
     (let jwks = envOr getenv ''JWT_JWKS_URL'' []
      in \<lparr>JWTIssuer = envOr getenv ''JWT_ISSUER'' [], JWTAudience = envOr getenv ''JWT_AUDIENCE'' [], JWKSURL = jwks,
          AdminScopes = Split (CHR '' '') (envOr getenv ''JWT_ADMIN_SCOPES'' ''policy:admin policy:review''),
          jwksResolver = (if jwks \<noteq> [] then Some (fetchJWKS lib client jwks) else None)\<rparr>)"

definition auth_Enabled :: "auth_config option \<Rightarrow> bool" where
  "auth_Enabled c = (case c of None \<Rightarrow> False | Some cfg \<Rightarrow> JWTIssuer cfg \<noteq> [])"

definition HasAnyScope :: "claims \<Rightarrow> string list \<Rightarrow> bool" where
  "HasAnyScope c required =
     (let have = cl_Scopes c @ (if cl_Scope c \<noteq> [] then Fields (cl_Scope c) else [])
      in list_ex (\<lambda>r. r \<in> set have) required)"

definition audienceContains :: "jwt_aud \<Rightarrow> string \<Rightarrow> bool" where
  "audienceContains aud want =
     (case aud of
        AudString v \<Rightarrow> v = want
      | AudAnys vs \<Rightarrow> list_ex (\<lambda>s. s = want) vs
      | AudStrings vs \<Rightarrow> list_ex (\<lambda>s. s = want) vs
      | AudOther \<Rightarrow> False)"

text \<open>\<^verbatim>\<open>time.Unix\<close>: the seconds are shifted to Go's epoch in 64-bit arithmetic.\<close>

definition time_Unix :: "i64 \<Rightarrow> gotime" where
  "time_Unix sec = sint (sec + 62135596800) * 1000000000"

section \<open>Bearer tokens\<close>

definition parseAndValidate :: "jwt_lib \<Rightarrow> auth_config \<Rightarrow> gotime \<Rightarrow> string \<Rightarrow> claims result" where
  "parseAndValidate lib c now token =
     (let parts = Split (CHR ''.'') token
      in if length parts \<noteq> 3 then Inl (ErrorNew ''malformed jwt: expected 3 parts'')
         else case b64_DecodeString lib (parts ! 0) of
           Inl err \<Rightarrow> Inl (Errorf ''decode header: '' err)
         | Inr headerJSON \<Rightarrow>
        (case dec_header lib headerJSON of
           Inl err \<Rightarrow> Inl (Errorf ''parse header: '' err)
         | Inr header \<Rightarrow>
        (case b64_DecodeString lib (parts ! 1) of
           Inl err \<Rightarrow> Inl (Errorf ''decode payload: '' err)
         | Inr payloadJSON \<Rightarrow>
        (case dec_claims lib payloadJSON of
           Inl err \<Rightarrow> Inl (Errorf ''parse claims: '' err)
         | Inr cl \<Rightarrow>
             if cl_Iss cl \<noteq> JWTIssuer c
             then Inl (ErrorNew (''issuer mismatch: got '' @ go_quote lib (cl_Iss cl) @ '' want '' @ go_quote lib (JWTIssuer c)))
             else if JWTAudience c \<noteq> [] \<and> \<not> audienceContains (cl_Aud cl) (JWTAudience c) then Inl (ErrorNew ''audience mismatch'')
             else if 0 < sint (cl_Exp cl) \<and> time_After now (time_Unix (cl_Exp cl)) then Inl (ErrorNew ''token expired'')
             else case (if jh_Kid header \<noteq> [] then jwksResolver c else None) of
               None \<Rightarrow> Inr cl
             | Some resolve \<Rightarrow> (case resolve (jh_Kid header) of Some err \<Rightarrow> Inl (Errorf ''jwks lookup: '' err) | None \<Rightarrow> Inr cl)))))"

definition validateBearer :: "jwt_lib \<Rightarrow> auth_config \<Rightarrow> gotime \<Rightarrow> string \<Rightarrow> claims result" where
  "validateBearer lib c now authHeader =
     (if authHeader = [] then Inl (ErrorNew ''missing authorization header'')
      else if \<not> HasPrefix authHeader ''Bearer '' then Inl (ErrorNew ''authorization header must be Bearer'')
      else let token = TrimSpace (TrimPrefix authHeader ''Bearer '')
           in if token = [] then Inl (ErrorNew ''empty bearer token'') else parseAndValidate lib c now token)"

definition isAdminPath :: "string \<Rightarrow> string \<Rightarrow> bool" where
  "isAdminPath method path \<longleftrightarrow>
     method = ''POST'' \<and>
     (path = ''/v1/policy/rules'' \<or> path = ''/v1/policy/whitelist''
      \<or> HasPrefix path ''/v1/policy/whitelist/'' \<and> HasSuffix path ''/verify''
      \<or> HasPrefix path ''/v1/policy/review/'' \<and> HasSuffix path ''/resolve'')"

section \<open>What a valid token says\<close>

lemma Split_parts: "Split sep s \<noteq> [] \<and> list_all (\<lambda>p. sep \<notin> set p) (Split sep s)"
  by (induction sep s rule: Split.induct) (auto split: list.splits)

lemma Split_join:
  assumes "sep \<notin> set p"
  shows "Split sep (p @ sep # s) = p # Split sep s"
  using assms by (induction p) auto

lemma Split_last:
  assumes "sep \<notin> set p" shows "Split sep p = [p]"
  using assms by (induction p) auto

text \<open>
  The claims that validation lets through have the configured issuer, one of the configured audience if
  there is one, and are not expired, unless they carry no expiry at all.
\<close>
theorem validated_claims:
  assumes "validateBearer lib c now authHeader = Inr cl"
  shows "cl_Iss cl = JWTIssuer c \<and> (JWTAudience c = [] \<or> audienceContains (cl_Aud cl) (JWTAudience c))
     \<and> (sint (cl_Exp cl) \<le> 0 \<or> now \<le> time_Unix (cl_Exp cl))
     \<and> HasPrefix authHeader ''Bearer ''"
  using assms
  by (auto simp: validateBearer_def parseAndValidate_def Let_def time_After_def not_less
      split: if_splits sum.splits option.splits)

text \<open>
  C38: The signature of a token is never verified: replacing the third part of a token by anything without a dot
  changes nothing in the outcome, with and without a configured key set.
\<close>
theorem token_signature_ignored:
  assumes "CHR ''.'' \<notin> set h" and "CHR ''.'' \<notin> set p" and "CHR ''.'' \<notin> set sig" and "CHR ''.'' \<notin> set forged"
  shows "parseAndValidate lib c now (h @ ''.'' @ p @ ''.'' @ sig) = parseAndValidate lib c now (h @ ''.'' @ p @ ''.'' @ forged)"
proof -
  have "Split (CHR ''.'') (h @ ''.'' @ p @ ''.'' @ x) = [h, p, x]" if "CHR ''.'' \<notin> set x" for x
    using assms(1,2) that by (simp add: Split_join Split_last)
  note parts = this [OF assms(3)] this [OF assms(4)]
  have second: "[x, y, z] ! 1 = y" for x y z :: string by simp
  show ?thesis unfolding parseAndValidate_def Let_def parts second by simp
qed

text \<open>A concrete library in which every part is its own encoding and claims are their issuer.\<close>

definition demo_claims :: "string \<Rightarrow> claims" where
  "demo_claims s = \<lparr>cl_Sub = ''op'', cl_Iss = s, cl_Aud = AudOther, cl_Scope = [], cl_Scopes = [''policy:admin''], cl_Exp = 0, cl_Iat = 0\<rparr>"

definition demo_jwt :: jwt_lib where
  "demo_jwt = \<lparr>b64_DecodeString = Inr, dec_header = (\<lambda>h. Inr \<lparr>jh_Kid = [], jh_Alg = h\<rparr>), dec_claims = (\<lambda>s. Inr (demo_claims s)),
     dec_jwks = (\<lambda>_. Inr []), go_quote = (\<lambda>s. s)\<rparr>"

definition demo_auth :: auth_config where
  "demo_auth = \<lparr>JWTIssuer = ''idp'', JWTAudience = [], JWKSURL = [], AdminScopes = [''policy:admin''], jwksResolver = None\<rparr>"

lemma demo_bearer: "validateBearer demo_jwt demo_auth 0 ''Bearer none.idp.x'' = Inr (demo_claims ''idp'')"
proof -
  have "TrimSpace (TrimPrefix ''Bearer none.idp.x'' ''Bearer '') = ''none.idp.x''" by code_simp
  moreover have "Split (CHR ''.'') ''none.idp.x'' = [''none'', ''idp'', ''x'']" by simp
  ultimately show ?thesis
    by (simp add: validateBearer_def HasPrefix_def parseAndValidate_def demo_jwt_def demo_auth_def) (simp add: demo_claims_def)
qed

theorem validated_claims_witness: "cl_Iss (demo_claims ''idp'') = JWTIssuer demo_auth"
  using validated_claims [OF demo_bearer] by blast

theorem token_signature_ignored_witness:
  "parseAndValidate demo_jwt demo_auth 0 (''none'' @ ''.'' @ ''idp'' @ ''.'' @ ''signature'')
   = parseAndValidate demo_jwt demo_auth 0 (''none'' @ ''.'' @ ''idp'' @ ''.'' @ [])"
  by (rule token_signature_ignored) simp_all

end
