(* ===== verification/Whitelist.thy ===== *)
theory Whitelist
  imports Go_Prelude
begin

text \<open>
  Package \<^verbatim>\<open>internal/whitelist\<close>: the allowlist entries, the store interface, the in-memory store, the
  whitelisting service (add, list, verify, is-whitelisted) and the source-authentication check.

  The locale \<open>whitelist_store\<close> is the contract of a store: a \<open>view\<close> that maps the slot of a
  (user, chain, address) triple to its entry, and how each operation changes it. Inside it the life
  cycle of an entry is proved for the service operations: entries start pending, become verified by
  \<^verbatim>\<open>Verify\<close> only, and stay verified. The in-memory store interprets it with its text keys as slots.
\<close>

section \<open>Entries and stores\<close>

abbreviation wl_StatusPending :: string where
  "wl_StatusPending \<equiv> ''PENDING''"

abbreviation wl_StatusVerified :: string where
  "wl_StatusVerified \<equiv> ''VERIFIED''"

record wl_entry =
  wl_UserID :: string
  wl_Chain :: string
  wl_Address :: string
  wl_Label :: string
  wl_Status :: string
  wl_VerifiedAt :: gotime
  wl_CreatedAt :: gotime

definition zero_wl_entry :: wl_entry where
  "zero_wl_entry = \<lparr>wl_UserID = [], wl_Chain = [], wl_Address = [], wl_Label = [], wl_Status = [],
     wl_VerifiedAt = 0, wl_CreatedAt = 0\<rparr>"

record 's wl_store_ops =
  wlStoreAdd :: "wl_entry \<Rightarrow> 's \<Rightarrow> gerror option \<times> 's"
  wlStoreList :: "string \<Rightarrow> 's \<Rightarrow> wl_entry list result"
  wlStoreGet :: "string \<Rightarrow> string \<Rightarrow> string \<Rightarrow> 's \<Rightarrow> wl_entry option result"
  wlStoreUpdate :: "wl_entry \<Rightarrow> 's \<Rightarrow> gerror option \<times> 's"

abbreviation wl_ErrNotFound :: gerror where
  "wl_ErrNotFound \<equiv> Sentinel ''whitelist entry not found''"

abbreviation wl_ErrAlreadyVerified :: gerror where
  "wl_ErrAlreadyVerified \<equiv> Sentinel ''whitelist entry already verified''"

abbreviation wl_ErrDuplicate :: gerror where
  "wl_ErrDuplicate \<equiv> Sentinel ''whitelist entry already exists''"

section \<open>The service\<close>

definition wl_Add :: "'s wl_store_ops \<Rightarrow> gotime \<Rightarrow> string \<Rightarrow> string \<Rightarrow> string \<Rightarrow> string \<Rightarrow> 's \<Rightarrow> wl_entry goret \<times> 's" where
  "wl_Add ops now userID chain address label s =
     (if userID = [] \<or> chain = [] \<or> address = []
      then ((zero_wl_entry, Some (ErrorNew ''user_id, chain, and address are required'')), s)
      else let e = zero_wl_entry\<lparr>wl_UserID := userID, wl_Chain := chain, wl_Address := address,
                    wl_Label := label, wl_Status := wl_StatusPending, wl_CreatedAt := now\<rparr>
           in case wlStoreAdd ops e s of
                (Some err, s') \<Rightarrow> ((zero_wl_entry, Some err), s')
              | (None, s') \<Rightarrow> ((e, None), s'))"

definition wl_List :: "'s wl_store_ops \<Rightarrow> string \<Rightarrow> 's \<Rightarrow> wl_entry list result" where
  "wl_List ops userID s = wlStoreList ops userID s"

definition wl_Verify :: "'s wl_store_ops \<Rightarrow> gotime \<Rightarrow> string \<Rightarrow> string \<Rightarrow> string \<Rightarrow> 's \<Rightarrow> wl_entry goret \<times> 's" where
  "wl_Verify ops now userID chain address s =
     (case wlStoreGet ops userID chain address s of
        Inl err \<Rightarrow> ((zero_wl_entry, Some err), s)
      | Inr None \<Rightarrow> ((zero_wl_entry, Some wl_ErrNotFound), s)
      | Inr (Some e) \<Rightarrow>
          if wl_Status e = wl_StatusVerified then ((e, Some wl_ErrAlreadyVerified), s)
          else let e' = e\<lparr>wl_Status := wl_StatusVerified, wl_VerifiedAt := now\<rparr>
               in case wlStoreUpdate ops e' s of
                    (Some err, s') \<Rightarrow> ((zero_wl_entry, Some err), s')
                  | (None, s') \<Rightarrow> ((e', None), s'))"

definition IsWhitelisted :: "'s wl_store_ops \<Rightarrow> string \<Rightarrow> string \<Rightarrow> string \<Rightarrow> 's \<Rightarrow> bool" where
  "IsWhitelisted ops userID chain address s =
     (case wlStoreGet ops userID chain address s of
        Inr (Some e) \<Rightarrow> wl_Status e = wl_StatusVerified
      | _ \<Rightarrow> False)"

section \<open>The in-memory store\<close>

text \<open>
  Iterating over a Go map visits its keys in an order the language leaves open: \<open>order\<close> is the
  order the runtime chooses for a map.
\<close>

type_synonym wl_memory = "string \<rightharpoonup> wl_entry"

definition wl_key :: "string \<Rightarrow> string \<Rightarrow> string \<Rightarrow> string" where
  "wl_key userID chain address = userID @ ''|'' @ chain @ ''|'' @ address"

definition wl_NewMemoryStore :: wl_memory where
  "wl_NewMemoryStore = Map.empty"

definition wl_memory_Add :: "wl_entry \<Rightarrow> wl_memory \<Rightarrow> gerror option \<times> wl_memory" where
  "wl_memory_Add e m =
     (let k = wl_key (wl_UserID e) (wl_Chain e) (wl_Address e)
      in if m k \<noteq> None then (Some wl_ErrDuplicate, m) else (None, m(k \<mapsto> e)))"

definition wl_memory_List :: "(wl_memory \<Rightarrow> string list) \<Rightarrow> string \<Rightarrow> wl_memory \<Rightarrow> wl_entry list result" where
  "wl_memory_List order userID m = Inr (filter (\<lambda>e. wl_UserID e = userID) (List.map_filter m (order m)))"

definition wl_memory_Get :: "string \<Rightarrow> string \<Rightarrow> string \<Rightarrow> wl_memory \<Rightarrow> wl_entry option result" where
  "wl_memory_Get userID chain address m = Inr (m (wl_key userID chain address))"

definition wl_memory_Update :: "wl_entry \<Rightarrow> wl_memory \<Rightarrow> gerror option \<times> wl_memory" where
  "wl_memory_Update e m =
     (let k = wl_key (wl_UserID e) (wl_Chain e) (wl_Address e)
      in if m k = None then (Some wl_ErrNotFound, m) else (None, m(k \<mapsto> e)))"

definition wl_memory_ops :: "(wl_memory \<Rightarrow> string list) \<Rightarrow> wl_memory wl_store_ops" where
  "wl_memory_ops order =
     \<lparr>wlStoreAdd = wl_memory_Add, wlStoreList = wl_memory_List order, wlStoreGet = wl_memory_Get, wlStoreUpdate = wl_memory_Update\<rparr>"

lemmas wl_memory_defs [store_defs] =
  wl_memory_ops_def wl_memory_Add_def wl_memory_List_def wl_memory_Get_def wl_memory_Update_def

section \<open>Source authentication\<close>

record source_auth_result =
  AuthOK :: bool
  AuthReason :: string
  AuthRequires2FA :: bool
  TwoFAPassed :: bool

definition CheckSourceAuth :: "bool \<Rightarrow> bool \<Rightarrow> bool \<Rightarrow> source_auth_result" where
  "CheckSourceAuth sessionValid requires2FA twoFAPassed =
     (if \<not> sessionValid then \<lparr>AuthOK = False, AuthReason = ''invalid_session'', AuthRequires2FA = False, TwoFAPassed = False\<rparr>
      else if requires2FA \<and> \<not> twoFAPassed
      then \<lparr>AuthOK = False, AuthReason = ''2fa_required'', AuthRequires2FA = True, TwoFAPassed = False\<rparr>
      else \<lparr>AuthOK = True, AuthReason = [], AuthRequires2FA = requires2FA, TwoFAPassed = twoFAPassed\<rparr>)"

lemma CheckSourceAuth_OK [simp]: "AuthOK (CheckSourceAuth s r t) \<longleftrightarrow> s \<and> (r \<longrightarrow> t)"
  by (simp add: CheckSourceAuth_def)

section \<open>Runs of the service\<close>

datatype wl_event = WLAdd gotime string string string string | WLVerify gotime string string string

fun wl_step :: "'s wl_store_ops \<Rightarrow> wl_event \<Rightarrow> 's \<Rightarrow> 's" where
  "wl_step ops (WLAdd now u c a l) s = snd (wl_Add ops now u c a l s)"
| "wl_step ops (WLVerify now u c a) s = snd (wl_Verify ops now u c a s)"

definition wl_run :: "'s wl_store_ops \<Rightarrow> wl_event list \<Rightarrow> 's \<Rightarrow> 's" where
  "wl_run ops evs s = fold (wl_step ops) evs s"

text \<open>Runs in which the store behaves differently from call to call: \<open>i\<close> describes the circumstances of a call.\<close>

definition wl_runs :: "('i \<Rightarrow> 's wl_store_ops) \<Rightarrow> ('i \<times> wl_event) list \<Rightarrow> 's \<Rightarrow> 's" where
  "wl_runs ops evs s = fold (\<lambda>(i, ev). wl_step (ops i) ev) evs s"

lemma wl_run_runs: "wl_run (ops i) evs s = wl_runs ops (map (Pair i) evs) s"
  by (induction evs arbitrary: s) (simp_all add: wl_run_def wl_runs_def)

section \<open>The contract of a store\<close>

text \<open>
  A store may fail at any call, and a call that reports an error may have taken effect all the same (a
  database whose reply is lost). What a lookup reports without an error is the \<open>view\<close> of the store. A store
  may round the times of an entry, it keeps the rest.
\<close>

definition entry_kept :: "wl_entry \<Rightarrow> wl_entry \<Rightarrow> bool" where
  "entry_kept e' e \<longleftrightarrow> wl_UserID e' = wl_UserID e \<and> wl_Chain e' = wl_Chain e \<and> wl_Address e' = wl_Address e \<and> wl_Status e' = wl_Status e"

lemma entry_kept_refl [intro]: "entry_kept e e"
  by (simp add: entry_kept_def)

locale whitelist_store =
  fixes ops :: "'i \<Rightarrow> 's wl_store_ops"
    and slot :: "string \<Rightarrow> string \<Rightarrow> string \<Rightarrow> 'k"
    and view :: "'s \<Rightarrow> 'k \<rightharpoonup> wl_entry"
  assumes store_get: "wlStoreGet (ops i) u c a s = Inr r \<Longrightarrow> view s (slot u c a) = r"
    and store_add: "wlStoreAdd (ops i) e s = (err, s') \<Longrightarrow>
      err \<noteq> None \<and> view s' = view s
      \<or> view s (slot (wl_UserID e) (wl_Chain e) (wl_Address e)) = None
        \<and> (\<exists>e'. view s' = (view s)(slot (wl_UserID e) (wl_Chain e) (wl_Address e) \<mapsto> e') \<and> entry_kept e' e)"
    and store_update: "wlStoreUpdate (ops i) e s = (err, s') \<Longrightarrow>
      err \<noteq> None \<and> view s' = view s
      \<or> (\<exists>e'. view s' = (view s)(slot (wl_UserID e) (wl_Chain e) (wl_Address e) \<mapsto> e') \<and> entry_kept e' e)"
begin

definition placed :: "'s \<Rightarrow> bool" where
  "placed s \<longleftrightarrow> (\<forall>k e. view s k = Some e \<longrightarrow> slot (wl_UserID e) (wl_Chain e) (wl_Address e) = k)"

definition verified :: "'s \<Rightarrow> 'k \<Rightarrow> bool" where
  "verified s k \<longleftrightarrow> (\<exists>e. view s k = Some e \<and> wl_Status e = wl_StatusVerified)"

lemma IsWhitelisted_verified: "IsWhitelisted (ops i) u c a s \<Longrightarrow> verified s (slot u c a)"
  by (auto simp: IsWhitelisted_def verified_def dest!: store_get split: sum.splits option.splits)

lemma Add_view:
  "view (snd (wl_Add (ops i) now u c a l s)) = view s
   \<or> (\<exists>e. view s (slot u c a) = None \<and> view (snd (wl_Add (ops i) now u c a l s)) = (view s)(slot u c a \<mapsto> e)
        \<and> wl_Status e = wl_StatusPending \<and> wl_UserID e = u \<and> wl_Chain e = c \<and> wl_Address e = a)"
proof -
  let ?e = "zero_wl_entry\<lparr>wl_UserID := u, wl_Chain := c, wl_Address := a, wl_Label := l,
    wl_Status := wl_StatusPending, wl_CreatedAt := now\<rparr>"
  obtain r s' where add: "wlStoreAdd (ops i) ?e s = (r, s')" by (cases "wlStoreAdd (ops i) ?e s")
  then have "view (snd (wl_Add (ops i) now u c a l s)) \<in> {view s, view s'}"
    by (auto simp: wl_Add_def Let_def split: option.splits)
  with store_add [OF add] show ?thesis
    by (auto simp: entry_kept_def)
qed

lemma Verify_view:
  assumes "placed s"
  shows "view (snd (wl_Verify (ops i) now u c a s)) = view s
   \<or> (\<exists>e e'. view s (slot u c a) = Some e \<and> wl_Status e \<noteq> wl_StatusVerified
        \<and> view (snd (wl_Verify (ops i) now u c a s)) = (view s)(slot u c a \<mapsto> e') \<and> wl_Status e' = wl_StatusVerified
        \<and> slot (wl_UserID e') (wl_Chain e') (wl_Address e') = slot u c a)"
proof (cases "wlStoreGet (ops i) u c a s")
  case (Inr r)
  show ?thesis
  proof (cases "r = None \<or> wl_Status (the r) = wl_StatusVerified")
    case True
    with Inr show ?thesis by (cases r) (auto simp: wl_Verify_def)
  next
    case False
    then obtain e where r: "r = Some e" and st: "wl_Status e \<noteq> wl_StatusVerified" by auto
    with store_get [OF Inr] have e: "view s (slot u c a) = Some e" by simp
    with assms have sl: "slot (wl_UserID e) (wl_Chain e) (wl_Address e) = slot u c a" by (simp add: placed_def)
    let ?e = "e\<lparr>wl_Status := wl_StatusVerified, wl_VerifiedAt := now\<rparr>"
    obtain x s' where upd: "wlStoreUpdate (ops i) ?e s = (x, s')" by (cases "wlStoreUpdate (ops i) ?e s")
    with Inr r st have "view (snd (wl_Verify (ops i) now u c a s)) = view s'"
      by (auto simp: wl_Verify_def Let_def split: option.splits)
    with store_update [OF upd] sl e st show ?thesis
      by (auto simp: entry_kept_def)
  qed
qed (simp add: wl_Verify_def)

lemma step_placed:
  assumes "placed s"
  shows "placed (wl_step (ops i) ev s)"
proof (cases ev)
  case (WLAdd now u c a l)
  then show ?thesis using assms Add_view [of i now u c a l s] by (auto simp: placed_def split: if_splits)
next
  case (WLVerify now u c a)
  then show ?thesis using assms Verify_view [OF assms(1), of i now u c a] by (auto simp: placed_def split: if_splits)
qed

lemma verified_stays:
  assumes "placed s" and "verified s k"
  shows "verified (wl_step (ops i) ev s) k"
proof (cases ev)
  case (WLAdd now u c a l)
  then show ?thesis using assms Add_view [of i now u c a l s] by (auto simp: verified_def)
next
  case (WLVerify now u c a)
  then show ?thesis using assms Verify_view [OF assms(1), of i now u c a] by (auto simp: verified_def)
qed

lemma verified_by_step:
  assumes "placed s" and "verified (wl_step (ops i) ev s) k"
  shows "verified s k \<or> (\<exists>now u c a. ev = WLVerify now u c a \<and> slot u c a = k \<and> view s k \<noteq> None)"
proof (cases ev)
  case (WLAdd now u c a l)
  then show ?thesis using assms(2) Add_view [of i now u c a l s] by (auto simp: verified_def split: if_splits)
next
  case (WLVerify now u c a)
  then show ?thesis using assms Verify_view [OF assms(1), of i now u c a] by (auto simp: verified_def split: if_splits)
qed

lemma present_by_step:
  assumes "placed s" and "view (wl_step (ops i) ev s) k \<noteq> None"
  shows "view s k \<noteq> None \<or> (\<exists>now u c a l. ev = WLAdd now u c a l \<and> slot u c a = k)"
proof (cases ev)
  case (WLAdd now u c a l)
  then show ?thesis using assms(2) Add_view [of i now u c a l s] by (auto split: if_splits)
next
  case (WLVerify now u c a)
  then show ?thesis using assms Verify_view [OF assms(1), of i now u c a] by (auto split: if_splits)
qed

lemma run_placed: "placed s \<Longrightarrow> placed (wl_runs ops evs s)"
  by (induction evs arbitrary: s) (auto simp: wl_runs_def step_placed split: prod.splits)

lemma run_snoc: "wl_runs ops (evs @ [(i, ev)]) s = wl_step (ops i) ev (wl_runs ops evs s)"
  by (simp add: wl_runs_def)

lemma present_by_run:
  assumes "placed s" and "view s = Map.empty"
  shows "view (wl_runs ops evs s) k \<noteq> None \<Longrightarrow>
    \<exists>xs ys now u c a l. map snd evs = xs @ WLAdd now u c a l # ys \<and> slot u c a = k"
proof (induction evs rule: rev_induct)
  case Nil
  then show ?case using assms(2) by (simp add: wl_runs_def)
next
  case (snoc iev evs)
  obtain i ev where [simp]: "iev = (i, ev)" by (cases iev)
  from present_by_step [OF run_placed [OF assms(1)], of i ev evs k] snoc.prems
  consider "view (wl_runs ops evs s) k \<noteq> None" | now u c a l where "ev = WLAdd now u c a l" "slot u c a = k"
    by (auto simp: run_snoc)
  then show ?case
  proof cases
    case 1
    with snoc.IH show ?thesis by fastforce
  next
    case 2
    then have "map snd (evs @ [iev]) = map snd evs @ WLAdd now u c a l # []" by simp
    with 2 show ?thesis by blast
  qed
qed

lemma verified_by_run:
  assumes "placed s" and "view s = Map.empty"
  shows "verified (wl_runs ops evs s) k \<Longrightarrow>
    \<exists>xs ys zs now u c a l now' u' c' a'.
      map snd evs = xs @ WLAdd now u c a l # ys @ WLVerify now' u' c' a' # zs \<and> slot u c a = k \<and> slot u' c' a' = k"
proof (induction evs rule: rev_induct)
  case Nil
  then show ?case using assms(2) by (simp add: wl_runs_def verified_def)
next
  case (snoc iev evs)
  obtain i ev where [simp]: "iev = (i, ev)" by (cases iev)
  from verified_by_step [OF run_placed [OF assms(1)], of i ev evs k] snoc.prems
  consider "verified (wl_runs ops evs s) k"
    | now u c a where "ev = WLVerify now u c a" "slot u c a = k" "view (wl_runs ops evs s) k \<noteq> None"
    by (auto simp: run_snoc)
  then show ?case
  proof cases
    case 1
    with snoc.IH show ?thesis by fastforce
  next
    case 2
    with present_by_run [OF assms, of evs k] show ?thesis by fastforce
  qed
qed

end

section \<open>The in-memory store keeps the contract\<close>

interpretation wm: whitelist_store wl_memory_ops wl_key "\<lambda>m. m"
  by unfold_locales (fastforce simp: wl_memory_defs Let_def split: if_splits)+

section \<open>Keys of the in-memory store\<close>

lemma wl_key_split:
  assumes "CHR ''|'' \<notin> set x" and "CHR ''|'' \<notin> set y" and "x @ CHR ''|'' # s = y @ CHR ''|'' # t"
  shows "x = y \<and> s = t"
proof -
  have "takeWhile (\<lambda>c. c \<noteq> CHR ''|'') (x @ CHR ''|'' # s) = x" "takeWhile (\<lambda>c. c \<noteq> CHR ''|'') (y @ CHR ''|'' # t) = y"
    using assms(1,2) by (auto simp: takeWhile_append)
  with assms(3) have "x = y" by metis
  with assms(3) show ?thesis by simp
qed

lemma wl_key_inject:
  assumes "CHR ''|'' \<notin> set u" "CHR ''|'' \<notin> set u'" "CHR ''|'' \<notin> set c" "CHR ''|'' \<notin> set c'"
  shows "wl_key u c a = wl_key u' c' a' \<longleftrightarrow> u = u' \<and> c = c' \<and> a = a'"
proof
  assume eq: "wl_key u c a = wl_key u' c' a'"
  then have "u @ CHR ''|'' # (c @ CHR ''|'' # a) = u' @ CHR ''|'' # (c' @ CHR ''|'' # a')"
    by (simp add: wl_key_def)
  with assms(1,2) have "u = u'" and rest: "c @ CHR ''|'' # a = c' @ CHR ''|'' # a'"
    using wl_key_split by blast+
  moreover from assms(3,4) rest have "c = c' \<and> a = a'" by (rule wl_key_split)
  ultimately show "u = u' \<and> c = c' \<and> a = a'" by simp
qed simp

lemma wl_memory_verified_by_run:
  assumes "IsWhitelisted (wl_memory_ops order) u c a (wl_run (wl_memory_ops order) evs wl_NewMemoryStore)"
  shows "\<exists>xs ys zs now u1 c1 a1 l now' u2 c2 a2.
    evs = xs @ WLAdd now u1 c1 a1 l # ys @ WLVerify now' u2 c2 a2 # zs
    \<and> wl_key u1 c1 a1 = wl_key u c a \<and> wl_key u2 c2 a2 = wl_key u c a"
proof -
  have "wm.placed wl_NewMemoryStore" by (simp add: wm.placed_def wl_NewMemoryStore_def)
  moreover have "wl_NewMemoryStore = Map.empty" by (rule wl_NewMemoryStore_def)
  moreover have "wm.verified (wl_runs wl_memory_ops (map (Pair order) evs) wl_NewMemoryStore) (wl_key u c a)"
    using assms unfolding wl_run_runs by (rule wm.IsWhitelisted_verified)
  ultimately show ?thesis
    using wm.verified_by_run [of wl_NewMemoryStore "map (Pair order) evs" "wl_key u c a"]
    by (simp add: comp_def)
qed

text \<open>
  In the in-memory mode an address is whitelisted for a user only after it was added and then
  verified: at the end of every run of the service from the empty store, a destination that counts as
  whitelisted has an add event followed later by a verify event, both under its key.
\<close>

theorem whitelisted_only_after_verification:
  assumes "IsWhitelisted (wl_memory_ops order) u c a (wl_run (wl_memory_ops order) evs wl_NewMemoryStore)"
  shows "\<exists>xs ys zs now u1 c1 a1 l now' u2 c2 a2.
    evs = xs @ WLAdd now u1 c1 a1 l # ys @ WLVerify now' u2 c2 a2 # zs
    \<and> wl_key u1 c1 a1 = wl_key u c a \<and> wl_key u2 c2 a2 = wl_key u c a"
  using assms by (rule wl_memory_verified_by_run)

text \<open>
  C20: When no user identifier and no chain name in the run contains the key separator, the two events are
  about exactly the user, the chain and the address that is whitelisted.
\<close>

theorem whitelisted_exact:
  assumes "IsWhitelisted (wl_memory_ops order) u c a (wl_run (wl_memory_ops order) evs wl_NewMemoryStore)"
    and "CHR ''|'' \<notin> set u" and "CHR ''|'' \<notin> set c"
    and "\<And>now u1 c1 a1 l. WLAdd now u1 c1 a1 l \<in> set evs \<Longrightarrow> CHR ''|'' \<notin> set u1 \<and> CHR ''|'' \<notin> set c1"
    and "\<And>now u1 c1 a1. WLVerify now u1 c1 a1 \<in> set evs \<Longrightarrow> CHR ''|'' \<notin> set u1 \<and> CHR ''|'' \<notin> set c1"
  shows "\<exists>xs ys zs now l now'. evs = xs @ WLAdd now u c a l # ys @ WLVerify now' u c a # zs"
proof -
  from wl_memory_verified_by_run [OF assms(1)] obtain xs ys zs now u1 c1 a1 l now' u2 c2 a2 where
    evs: "evs = xs @ WLAdd now u1 c1 a1 l # ys @ WLVerify now' u2 c2 a2 # zs"
    and k: "wl_key u1 c1 a1 = wl_key u c a" "wl_key u2 c2 a2 = wl_key u c a"
    by blast
  have free: "CHR ''|'' \<notin> set u1 \<and> CHR ''|'' \<notin> set c1" "CHR ''|'' \<notin> set u2 \<and> CHR ''|'' \<notin> set c2"
    using assms(4) [of now u1 c1 a1 l] assms(5) [of now' u2 c2 a2] evs by simp_all
  have "u1 = u \<and> c1 = c \<and> a1 = a" "u2 = u \<and> c2 = c \<and> a2 = a"
    using k free assms(2,3) by (simp_all add: wl_key_inject)
  with evs show ?thesis by blast
qed


text \<open>
  Listing a user's addresses returns, in some order and without repetition, exactly the stored
  entries of that user, for every iteration order the runtime may choose.
\<close>

theorem wl_memory_List_entries:
  assumes "distinct (order m)" and "set (order m) = dom m"
    and "\<And>k e. m k = Some e \<Longrightarrow> wl_key (wl_UserID e) (wl_Chain e) (wl_Address e) = k"
  shows "\<exists>es. wl_List (wl_memory_ops order) u m = Inr es \<and> distinct es
    \<and> set es = {e \<in> ran m. wl_UserID e = u}"
proof -
  note o = assms(1,2)
  have "inj_on (the \<circ> m) (dom m)"
    using assms(3) by (auto simp: inj_on_def) metis
  with o have "distinct (map (the \<circ> m) (order m))" by (simp add: distinct_map)
  moreover have "List.map_filter m (order m) = map (the \<circ> m) (order m)"
    using o by (simp add: List.map_filter_def) (subst filter_True; auto)
  moreover have "set (map (the \<circ> m) (order m)) = ran m"
    using o by (force simp: ran_def dom_def)
  ultimately show ?thesis by (auto simp: wl_List_def wl_memory_defs)
qed

section \<open>Instances\<close>

abbreviation (input) wl_two :: "wl_event list" where
  "wl_two \<equiv> [WLAdd 1 ''u'' ''eth'' ''0x1'' [], WLVerify 2 ''u'' ''eth'' ''0x1'']"

lemma wl_two_whitelisted:
  "IsWhitelisted (wl_memory_ops (\<lambda>_. [])) ''u'' ''eth'' ''0x1'' (wl_run (wl_memory_ops (\<lambda>_. [])) wl_two wl_NewMemoryStore)"
  by (simp add: wl_run_def wl_Add_def wl_Verify_def IsWhitelisted_def wl_memory_defs wl_key_def wl_NewMemoryStore_def
      zero_wl_entry_def Let_def)

theorem whitelisted_only_after_verification_witness:
  "\<exists>xs ys zs now u1 c1 a1 l now' u2 c2 a2.
    wl_two = xs @ WLAdd now u1 c1 a1 l # ys @ WLVerify now' u2 c2 a2 # zs
    \<and> wl_key u1 c1 a1 = wl_key ''u'' ''eth'' ''0x1'' \<and> wl_key u2 c2 a2 = wl_key ''u'' ''eth'' ''0x1''"
  using wl_two_whitelisted by (rule whitelisted_only_after_verification)

theorem whitelisted_exact_witness:
  "\<exists>xs ys zs now l now'. wl_two = xs @ WLAdd now ''u'' ''eth'' ''0x1'' l # ys @ WLVerify now' ''u'' ''eth'' ''0x1'' # zs"
  using wl_two_whitelisted by (rule whitelisted_exact) auto

definition wl_demo :: wl_entry where
  "wl_demo = zero_wl_entry\<lparr>wl_UserID := ''u'', wl_Chain := ''eth'', wl_Address := ''0x1''\<rparr>"

theorem wl_memory_List_entries_witness:
  "\<exists>es. wl_List (wl_memory_ops (\<lambda>_. [''u|eth|0x1''])) ''u'' [''u|eth|0x1'' \<mapsto> wl_demo] = Inr es
    \<and> distinct es \<and> set es = {e \<in> ran [''u|eth|0x1'' \<mapsto> wl_demo]. wl_UserID e = ''u''}"
proof (rule wl_memory_List_entries)
  fix k e
  assume "[''u|eth|0x1'' \<mapsto> wl_demo] k = Some e"
  then have "k = ''u|eth|0x1'' \<and> e = wl_demo" by (simp only: fun_upd_apply option.inject split: if_splits) simp
  then show "wl_key (wl_UserID e) (wl_Chain e) (wl_Address e) = k"
    by (simp add: wl_demo_def zero_wl_entry_def wl_key_def)
qed simp_all

end
