(* ===== verification/Review.thy ===== *)
theory Review
  imports Go_Strconv "HOL-Library.Multiset"
begin

text \<open>
  Package \<^verbatim>\<open>internal/review\<close>: the review queue items, the store interface, the in-memory store, the
  review service (park, resolve, get, list) and the notifier that posts a resolution to the transaction
  orchestrator. The HTTP client, the JSON encoder and the request context of the notifier are parameters.

  The locale \<open>review_store\<close> is the contract of a store; in it the life cycle of an item is proved: a
  parked item is pending, a resolution is made once and never changes. The in-memory store interprets it.
\<close>

section \<open>Items and stores\<close>

abbreviation rv_StatusPending :: string where
  "rv_StatusPending \<equiv> ''PENDING''"

abbreviation rv_StatusResolved :: string where
  "rv_StatusResolved \<equiv> ''RESOLVED''"

abbreviation ResolutionAllow :: string where
  "ResolutionAllow \<equiv> ''ALLOW''"

abbreviation ResolutionDeny :: string where
  "ResolutionDeny \<equiv> ''DENY''"

record review_item =
  rv_DecisionID :: string
  rv_TxID :: string
  rv_Status :: string
  rv_AssignedTo :: string
  rv_CreatedAt :: gotime
  rv_ResolvedAt :: "gotime option"
  rv_Resolution :: string

definition zero_review_item :: review_item where
  "zero_review_item = \<lparr>rv_DecisionID = [], rv_TxID = [], rv_Status = [], rv_AssignedTo = [], rv_CreatedAt = 0,
     rv_ResolvedAt = None, rv_Resolution = []\<rparr>"

record 's review_store_ops =
  rvStorePut :: "review_item \<Rightarrow> 's \<Rightarrow> gerror option \<times> 's"
  rvStoreGet :: "string \<Rightarrow> 's \<Rightarrow> review_item option result"
  rvStoreList :: "string \<Rightarrow> 's \<Rightarrow> review_item list result"
  rvStoreUpdate :: "review_item \<Rightarrow> 's \<Rightarrow> gerror option \<times> 's"

abbreviation rv_ErrNotFound :: gerror where
  "rv_ErrNotFound \<equiv> Sentinel ''review item not found''"

abbreviation rv_ErrAlreadyResolved :: gerror where
  "rv_ErrAlreadyResolved \<equiv> Sentinel ''review item already resolved''"

abbreviation rv_ErrInvalidResolution :: gerror where
  "rv_ErrInvalidResolution \<equiv> Sentinel ''invalid resolution; must be allow or deny''"

abbreviation rv_ErrDuplicate :: gerror where
  "rv_ErrDuplicate \<equiv> Sentinel ''review item already exists''"

section \<open>The notifier\<close>

text \<open>
  One attempt to post the webhook ends in a transport error or in a status code. \<open>ctx_done n\<close> is the
  context's error if it is done while waiting before attempt \<open>n\<close>. The outcome carries the error
  returned, the number of requests sent and the milliseconds of backoff waited for.
\<close>

datatype http_outcome = TransportError gerror | HTTPStatus int

record notifier =
  notifier_url :: string

record notify_env =
  marshal_item :: "review_item \<Rightarrow> string result"
  new_request :: "string \<Rightarrow> gerror option"
  do_request :: "nat \<Rightarrow> http_outcome"
  ctx_done :: "nat \<Rightarrow> gerror option"

definition Enabled :: "notifier option \<Rightarrow> bool" where
  "Enabled n = (case n of None \<Rightarrow> False | Some nt \<Rightarrow> notifier_url nt \<noteq> [])"

definition webhook_status_error :: "string \<Rightarrow> int \<Rightarrow> gerror" where
  "webhook_status_error msg code = ErrorNew (msg @ Itoa code)"

function notify_loop :: "notify_env \<Rightarrow> string \<Rightarrow> nat \<Rightarrow> nat \<Rightarrow> gerror option \<Rightarrow> nat \<Rightarrow> nat \<Rightarrow> gerror option \<times> nat \<times> nat" where
  "notify_loop env url attempt backoff lastErr sent waited =
     (if attempt < 3 then
        (case (if 0 < attempt then ctx_done env attempt else None) of
           Some err \<Rightarrow> (Some err, sent, waited)
         | None \<Rightarrow>
             let backoff' = (if 0 < attempt then 2 * backoff else backoff);
                 waited' = (if 0 < attempt then waited + backoff else waited)
             in case new_request env url of
                  Some err \<Rightarrow> (Some (Errorf ''build request: '' err), sent, waited')
                | None \<Rightarrow>
                    (case do_request env attempt of
                       TransportError err \<Rightarrow> notify_loop env url (Suc attempt) backoff' (Some err) (Suc sent) waited'
                     | HTTPStatus code \<Rightarrow>
                         if code div 100 = 2 then (None, Suc sent, waited')
                         else if code div 100 = 4
                         then (Some (webhook_status_error ''orchestrator webhook rejected: status '' code), Suc sent, waited')
                         else notify_loop env url (Suc attempt) backoff'
                                (Some (webhook_status_error ''orchestrator webhook status '' code)) (Suc sent) waited'))
      else (lastErr, sent, waited))"
  by pat_completeness auto
termination
  by (relation "measure (\<lambda>(env, url, attempt, backoff, lastErr, sent, waited). 3 - attempt)") auto

declare notify_loop.simps [simp del]

definition NotifyResolution :: "notify_env \<Rightarrow> notifier option \<Rightarrow> review_item \<Rightarrow> gerror option \<times> nat \<times> nat" where
  "NotifyResolution env n item =
     (case n of
        None \<Rightarrow> (None, 0, 0)
      | Some nt \<Rightarrow>
          if \<not> Enabled n then (None, 0, 0)
          else if rv_Status item \<noteq> rv_StatusResolved then (Some (ErrorNew ''notifier: item is not resolved''), 0, 0)
          else case marshal_item env item of
                 Inl err \<Rightarrow> (Some (Errorf ''marshal: '' err), 0, 0)
               | Inr body \<Rightarrow> notify_loop env (notifier_url nt) 0 100 None 0 0)"

section \<open>The service\<close>

definition rv_Park :: "'s review_store_ops \<Rightarrow> gotime \<Rightarrow> string \<Rightarrow> string \<Rightarrow> 's \<Rightarrow> review_item goret \<times> 's" where
  "rv_Park ops now decisionID txID s =
     (if decisionID = [] then ((zero_review_item, Some (ErrorNew ''decision_id is required'')), s)
      else let item = zero_review_item\<lparr>rv_DecisionID := decisionID, rv_TxID := txID,
                        rv_Status := rv_StatusPending, rv_CreatedAt := now\<rparr>
           in case rvStorePut ops item s of
                (Some err, s') \<Rightarrow> ((zero_review_item, Some err), s')
              | (None, s') \<Rightarrow> ((item, None), s'))"

text \<open>
  \<^verbatim>\<open>Resolve\<close> drops the notifier's error; what it sends is the second component of the result, the
  item handed to an enabled notifier.
\<close>

definition rv_Resolve ::
  "'s review_store_ops \<Rightarrow> notifier option \<Rightarrow> gotime \<Rightarrow> string \<Rightarrow> string \<Rightarrow> string \<Rightarrow> 's \<Rightarrow> review_item goret \<times> review_item option \<times> 's" where
  "rv_Resolve ops notifier now decisionID assignee resolution s =
     (if resolution \<noteq> ResolutionAllow \<and> resolution \<noteq> ResolutionDeny
      then ((zero_review_item, Some rv_ErrInvalidResolution), None, s)
      else case rvStoreGet ops decisionID s of
             Inl err \<Rightarrow> ((zero_review_item, Some err), None, s)
           | Inr None \<Rightarrow> ((zero_review_item, Some rv_ErrNotFound), None, s)
           | Inr (Some item) \<Rightarrow>
               if rv_Status item = rv_StatusResolved then ((zero_review_item, Some rv_ErrAlreadyResolved), None, s)
               else let item' = item\<lparr>rv_Status := rv_StatusResolved, rv_AssignedTo := assignee,
                                  rv_Resolution := resolution, rv_ResolvedAt := Some now\<rparr>
                    in case rvStoreUpdate ops item' s of
                         (Some err, s') \<Rightarrow> ((zero_review_item, Some err), None, s')
                       | (None, s') \<Rightarrow>
                           ((item', None), if Enabled notifier then Some item' else None, s'))"

definition rv_Get :: "'s review_store_ops \<Rightarrow> string \<Rightarrow> 's \<Rightarrow> review_item result" where
  "rv_Get ops decisionID s =
     (case rvStoreGet ops decisionID s of
        Inl err \<Rightarrow> Inl err
      | Inr None \<Rightarrow> Inl rv_ErrNotFound
      | Inr (Some item) \<Rightarrow> Inr item)"

definition rv_List :: "'s review_store_ops \<Rightarrow> string \<Rightarrow> 's \<Rightarrow> review_item list result" where
  "rv_List ops status s = rvStoreList ops status s"

section \<open>The in-memory store\<close>

record review_memory =
  rv_mem :: "string \<rightharpoonup> review_item"
  rv_order :: "string list"

definition rv_NewMemoryStore :: review_memory where
  "rv_NewMemoryStore = \<lparr>rv_mem = Map.empty, rv_order = []\<rparr>"

definition rv_memory_Put :: "review_item \<Rightarrow> review_memory \<Rightarrow> gerror option \<times> review_memory" where
  "rv_memory_Put item s =
     (if rv_DecisionID item = [] then (Some (ErrorNew ''decision_id required''), s)
      else if rv_mem s (rv_DecisionID item) \<noteq> None then (Some rv_ErrDuplicate, s)
      else (None, s\<lparr>rv_mem := (rv_mem s)(rv_DecisionID item \<mapsto> item), rv_order := rv_order s @ [rv_DecisionID item]\<rparr>))"

definition rv_memory_Get :: "string \<Rightarrow> review_memory \<Rightarrow> review_item option result" where
  "rv_memory_Get decisionID s = Inr (rv_mem s decisionID)"

definition rv_memory_List :: "string \<Rightarrow> review_memory \<Rightarrow> review_item list result" where
  "rv_memory_List status s =
     Inr (filter (\<lambda>item. status = [] \<or> rv_Status item = status)
            (map (\<lambda>id. case rv_mem s id of Some item \<Rightarrow> item | None \<Rightarrow> zero_review_item) (rv_order s)))"

definition rv_memory_Update :: "review_item \<Rightarrow> review_memory \<Rightarrow> gerror option \<times> review_memory" where
  "rv_memory_Update item s =
     (if rv_mem s (rv_DecisionID item) = None then (Some rv_ErrNotFound, s)
      else (None, s\<lparr>rv_mem := (rv_mem s)(rv_DecisionID item \<mapsto> item)\<rparr>))"

definition rv_memory_ops :: "review_memory review_store_ops" where
  "rv_memory_ops = \<lparr>rvStorePut = rv_memory_Put, rvStoreGet = rv_memory_Get, rvStoreList = rv_memory_List, rvStoreUpdate = rv_memory_Update\<rparr>"

lemmas rv_memory_defs [store_defs] =
  rv_memory_ops_def rv_memory_Put_def rv_memory_Get_def rv_memory_List_def rv_memory_Update_def

section \<open>The notifier's attempts\<close>

definition retryable :: "http_outcome \<Rightarrow> bool" where
  "retryable r = (case r of TransportError err \<Rightarrow> True | HTTPStatus code \<Rightarrow> code div 100 \<noteq> 2 \<and> code div 100 \<noteq> 4)"

definition accepted :: "http_outcome \<Rightarrow> bool" where
  "accepted r = (case r of TransportError err \<Rightarrow> False | HTTPStatus code \<Rightarrow> code div 100 = 2)"

lemma notify_loop_done: "3 \<le> attempt \<Longrightarrow> notify_loop env url attempt b e sent waited = (e, sent, waited)"
  by (simp add: notify_loop.simps)

lemma notify_step:
  assumes "attempt < 3" and "attempt = 0 \<or> ctx_done env attempt = None" and "new_request env url = None"
  shows "(accepted (do_request env attempt) \<longrightarrow> fst (notify_loop env url attempt b e n w) = None)
    \<and> (\<not> accepted (do_request env attempt) \<and> \<not> retryable (do_request env attempt) \<longrightarrow>
        fst (notify_loop env url attempt b e n w) \<noteq> None)
    \<and> (retryable (do_request env attempt) \<longrightarrow>
        (\<exists>b' err w'. notify_loop env url attempt b e n w = notify_loop env url (Suc attempt) b' (Some err) (Suc n) w'))"
proof -
  let ?b = "if 0 < attempt then 2 * b else b" and ?w = "if 0 < attempt then w + b else w"
  have eq: "notify_loop env url attempt b e n w =
    (case do_request env attempt of
       TransportError err \<Rightarrow> notify_loop env url (Suc attempt) ?b (Some err) (Suc n) ?w
     | HTTPStatus code \<Rightarrow>
         if code div 100 = 2 then (None, Suc n, ?w)
         else if code div 100 = 4 then (Some (webhook_status_error ''orchestrator webhook rejected: status '' code), Suc n, ?w)
         else notify_loop env url (Suc attempt) ?b (Some (webhook_status_error ''orchestrator webhook status '' code)) (Suc n) ?w)"
    using assms by (subst notify_loop.simps) (auto simp: Let_def)
  show ?thesis
  proof (cases "do_request env attempt")
    case (TransportError err)
    then show ?thesis unfolding eq accepted_def retryable_def by (simp del: ex_simps) blast
  next
    case (HTTPStatus code)
    then show ?thesis unfolding eq accepted_def retryable_def by (simp del: ex_simps) blast
  qed
qed

lemma accepted_not_retryable: "accepted r \<Longrightarrow> \<not> retryable r"
  by (auto simp: accepted_def retryable_def split: http_outcome.splits)

lemma notify_loop_delivered:
  assumes "\<And>m. ctx_done env m = None" and "new_request env url = None"
  shows "attempt = 3 - d \<Longrightarrow> d \<le> 3 \<Longrightarrow> 0 < d \<or> e \<noteq> None \<Longrightarrow>
    fst (notify_loop env url attempt b e n w) = None \<longleftrightarrow>
      (\<exists>k. attempt \<le> k \<and> k < 3 \<and> accepted (do_request env k) \<and> (\<forall>j. attempt \<le> j \<and> j < k \<longrightarrow> retryable (do_request env j)))"
proof (induction d arbitrary: attempt b e n w)
  case 0
  then show ?case by (auto simp: notify_loop_done)
next
  case (Suc d)
  then have lt: "attempt < 3" and nxt: "Suc attempt = 3 - d" by auto
  note st = notify_step [OF lt disjI2 [OF assms(1)] assms(2), of b e n w]
  consider "accepted (do_request env attempt)" | "retryable (do_request env attempt)"
    | "\<not> accepted (do_request env attempt)" "\<not> retryable (do_request env attempt)" by blast
  then show ?case
  proof cases
    case 1
    with st lt show ?thesis by (auto intro!: exI [of _ attempt])
  next
    case 2
    with st obtain b' err w' where
      "notify_loop env url attempt b e n w = notify_loop env url (Suc attempt) b' (Some err) (Suc n) w'" by blast
    then have "fst (notify_loop env url attempt b e n w) = None \<longleftrightarrow>
      (\<exists>k. Suc attempt \<le> k \<and> k < 3 \<and> accepted (do_request env k) \<and> (\<forall>j. Suc attempt \<le> j \<and> j < k \<longrightarrow> retryable (do_request env j)))"
      using Suc.IH [OF nxt, of "Some err" b' "Suc n" w'] Suc.prems(2) by simp
    also have "\<dots> \<longleftrightarrow> (\<exists>k. attempt \<le> k \<and> k < 3 \<and> accepted (do_request env k) \<and> (\<forall>j. attempt \<le> j \<and> j < k \<longrightarrow> retryable (do_request env j)))"
      using 2 accepted_not_retryable by (metis Suc_leD Suc_leI le_neq_implies_less)
    finally show ?thesis .
  next
    case 3
    with st show ?thesis by (metis le_neq_implies_less order_refl)
  qed
qed

lemma notify_loop_bounds:
  "sent \<le> attempt \<Longrightarrow> attempt \<le> 3 \<Longrightarrow> fst (snd (notify_loop env url attempt b e sent waited)) \<le> 3"
proof (induction env url attempt b e sent waited rule: notify_loop.induct)
  case (1 env url attempt b e sent waited)
  then show ?case
    by (subst notify_loop.simps) (auto simp: Let_def split: option.splits http_outcome.splits)
qed

definition notify_ready :: "notify_env \<Rightarrow> notifier \<Rightarrow> review_item \<Rightarrow> bool" where
  "notify_ready env nt item \<longleftrightarrow> notifier_url nt \<noteq> [] \<and> rv_Status item = rv_StatusResolved
     \<and> (\<exists>body. marshal_item env item = Inr body) \<and> new_request env (notifier_url nt) = None \<and> (\<forall>n. ctx_done env n = None)"

text \<open>
  When the webhook can be built and the context stays alive, the resolution is delivered exactly if
  one of the first three attempts is accepted while every earlier one failed in a retryable way (a
  transport error or a status that is neither 2xx nor 4xx); a 4xx answer ends the attempts in failure.
\<close>

theorem NotifyResolution_delivered:
  assumes "notify_ready env nt item"
  shows "fst (NotifyResolution env (Some nt) item) = None \<longleftrightarrow>
      (\<exists>k<3. accepted (do_request env k) \<and> (\<forall>j<k. retryable (do_request env j)))"
proof -
  from assms have "NotifyResolution env (Some nt) item = notify_loop env (notifier_url nt) 0 100 None 0 0"
    by (auto simp: NotifyResolution_def Enabled_def notify_ready_def)
  then show ?thesis
    using notify_loop_delivered [of env "notifier_url nt" 0 3 None 100 0 0] assms by (simp add: notify_ready_def)
qed

text \<open>
  Whatever the webhook answers, at most three requests are sent and at most 300 milliseconds of
  backoff are waited for, so the third backoff of 400 milliseconds is never used.
\<close>

theorem NotifyResolution_bounds:
  "fst (snd (NotifyResolution env n item)) \<le> 3 \<and> snd (snd (NotifyResolution env n item)) \<le> 300"
proof -
  have "snd (snd (notify_loop env url 0 100 None 0 0)) \<le> 300" for url
    by (simp add: notify_loop.simps [of env url 0] notify_loop.simps [of env url "Suc 0"] notify_loop.simps [of env url "Suc (Suc 0)"]
        notify_loop_done Let_def split: option.splits http_outcome.splits)
  moreover have "fst (snd (notify_loop env url 0 100 None 0 0)) \<le> 3" for url
    by (rule notify_loop_bounds) simp_all
  ultimately show ?thesis
    by (simp add: NotifyResolution_def split: option.splits sum.splits)
qed

section \<open>Runs of the service\<close>

datatype review_event =
    RVPark gotime string string
  | RVResolve "notifier option" gotime string string string

fun review_step :: "'s review_store_ops \<Rightarrow> review_event \<Rightarrow> 's \<Rightarrow> 's" where
  "review_step ops (RVPark now d tx) s = snd (rv_Park ops now d tx s)"
| "review_step ops (RVResolve nt now d who res) s = snd (snd (rv_Resolve ops nt now d who res s))"

definition review_run :: "'s review_store_ops \<Rightarrow> review_event list \<Rightarrow> 's \<Rightarrow> 's" where
  "review_run ops evs s = fold (review_step ops) evs s"

text \<open>An item of the queue is pending without a resolution or resolved with one.\<close>

definition item_ok :: "review_item \<Rightarrow> bool" where
  "item_ok it \<longleftrightarrow>
     rv_Status it = rv_StatusPending \<and> rv_Resolution it = [] \<and> rv_ResolvedAt it = None
   \<or> rv_Status it = rv_StatusResolved \<and> rv_Resolution it \<in> {ResolutionAllow, ResolutionDeny} \<and> rv_ResolvedAt it \<noteq> None"

section \<open>The contract of a store\<close>

locale review_store =
  fixes ops :: "'s review_store_ops" and view :: "'s \<Rightarrow> string \<rightharpoonup> review_item"
  assumes store_get: "rvStoreGet ops d s = Inr r \<Longrightarrow> view s d = r"
    and store_put: "rvStorePut ops it s = (None, s') \<Longrightarrow>
      view s (rv_DecisionID it) = None \<and> view s' = (view s)(rv_DecisionID it \<mapsto> it)"
    and store_put_err: "rvStorePut ops it s = (Some err, s') \<Longrightarrow> view s' = view s"
    and store_update: "rvStoreUpdate ops it s = (None, s') \<Longrightarrow> view s' = (view s)(rv_DecisionID it \<mapsto> it)"
    and store_update_err: "rvStoreUpdate ops it s = (Some err, s') \<Longrightarrow> view s' = view s"
begin

definition queue_ok :: "'s \<Rightarrow> bool" where
  "queue_ok s \<longleftrightarrow> (\<forall>d it. view s d = Some it \<longrightarrow> rv_DecisionID it = d \<and> item_ok it)"

lemma Park_view:
  "view (snd (rv_Park ops now d tx s)) = view s
   \<or> (\<exists>it. view s d = None \<and> view (snd (rv_Park ops now d tx s)) = (view s)(d \<mapsto> it)
        \<and> rv_DecisionID it = d \<and> rv_Status it = rv_StatusPending \<and> item_ok it)"
proof -
  let ?it = "zero_review_item\<lparr>rv_DecisionID := d, rv_TxID := tx, rv_Status := rv_StatusPending, rv_CreatedAt := now\<rparr>"
  obtain r s' where put: "rvStorePut ops ?it s = (r, s')" by (cases "rvStorePut ops ?it s")
  show ?thesis
  proof (cases r)
    case None
    with put store_put [of ?it s s'] show ?thesis
      by (auto simp: rv_Park_def Let_def item_ok_def zero_review_item_def)
  next
    case (Some err)
    with put store_put_err [of ?it s err s'] show ?thesis by (auto simp: rv_Park_def Let_def)
  qed
qed

lemma Resolve_view:
  assumes "queue_ok s"
  shows "view (snd (snd (rv_Resolve ops nt now d who res s))) = view s
   \<or> (\<exists>it it'. view s d = Some it \<and> rv_Status it \<noteq> rv_StatusResolved
        \<and> view (snd (snd (rv_Resolve ops nt now d who res s))) = (view s)(d \<mapsto> it')
        \<and> rv_DecisionID it' = d \<and> rv_Status it' = rv_StatusResolved \<and> rv_Resolution it' = res \<and> item_ok it')"
proof (cases "(res = ResolutionAllow \<or> res = ResolutionDeny) \<and> (\<exists>it. rvStoreGet ops d s = Inr (Some it) \<and> rv_Status it \<noteq> rv_StatusResolved)")
  case False
  then show ?thesis by (auto simp: rv_Resolve_def split: sum.splits option.splits)
next
  case True
  then obtain it where res: "res = ResolutionAllow \<or> res = ResolutionDeny"
    and get: "rvStoreGet ops d s = Inr (Some it)" and st: "rv_Status it \<noteq> rv_StatusResolved" by blast
  from store_get [OF get] have it: "view s d = Some it" .
  with assms have id: "rv_DecisionID it = d" by (simp add: queue_ok_def)
  let ?it = "it\<lparr>rv_Status := rv_StatusResolved, rv_AssignedTo := who, rv_Resolution := res, rv_ResolvedAt := Some now\<rparr>"
  obtain r s' where upd: "rvStoreUpdate ops ?it s = (r, s')" by (cases "rvStoreUpdate ops ?it s")
  show ?thesis
  proof (cases r)
    case None
    with upd store_update [of ?it s s'] id have "view s' = (view s)(d \<mapsto> ?it)" by simp
    with None upd res get st it id show ?thesis by (auto simp: rv_Resolve_def Let_def item_ok_def)
  next
    case (Some err)
    with upd store_update_err [of ?it s err s'] res get st show ?thesis by (auto simp: rv_Resolve_def Let_def)
  qed
qed

lemma step_queue_ok:
  assumes "queue_ok s"
  shows "queue_ok (review_step ops ev s)"
proof (cases ev)
  case (RVPark now d tx)
  then show ?thesis using assms Park_view [of now d tx s] by (auto simp: queue_ok_def split: if_splits)
next
  case (RVResolve nt now d who res)
  then show ?thesis using assms Resolve_view [OF assms, of nt now d who res] by (auto simp: queue_ok_def split: if_splits)
qed

lemma resolved_final:
  assumes "queue_ok s" and "view s d = Some it" and "rv_Status it = rv_StatusResolved"
  shows "view (review_step ops ev s) d = Some it"
proof (cases ev)
  case (RVPark now d' tx)
  then show ?thesis using assms Park_view [of now d' tx s] by auto
next
  case (RVResolve nt now d' who res)
  then show ?thesis using assms Resolve_view [OF assms(1), of nt now d' who res] by (auto split: if_splits)
qed

lemma present_stays:
  assumes "queue_ok s" and "view s d \<noteq> None"
  shows "view (review_step ops ev s) d \<noteq> None"
proof (cases ev)
  case (RVPark now d' tx)
  then show ?thesis using assms Park_view [of now d' tx s] by auto
next
  case (RVResolve nt now d' who res)
  then show ?thesis using assms Resolve_view [OF assms(1), of nt now d' who res] by auto
qed

lemma run_queue_ok: "queue_ok s \<Longrightarrow> queue_ok (review_run ops evs s)"
  by (induction evs arbitrary: s) (auto simp: review_run_def step_queue_ok)

lemma run_resolved_final:
  "queue_ok s \<Longrightarrow> view s d = Some it \<Longrightarrow> rv_Status it = rv_StatusResolved \<Longrightarrow> view (review_run ops evs s) d = Some it"
  by (induction evs arbitrary: s) (auto simp: review_run_def step_queue_ok resolved_final)

lemma Resolve_resolved:
  assumes "view s d = Some it" and "rv_Status it = rv_StatusResolved" and "rvStoreGet ops d s = Inr r"
    and "res = ResolutionAllow \<or> res = ResolutionDeny"
  shows "rv_Resolve ops nt now d who res s = ((zero_review_item, Some rv_ErrAlreadyResolved), None, s)"
  using assms store_get [OF assms(3)] by (auto simp: rv_Resolve_def)

end

section \<open>The in-memory store keeps the contract\<close>

interpretation rm: review_store rv_memory_ops rv_mem
  by unfold_locales (auto simp: rv_memory_defs split: if_splits)

definition order_ok :: "review_memory \<Rightarrow> bool" where
  "order_ok s \<longleftrightarrow> distinct (rv_order s) \<and> set (rv_order s) = dom (rv_mem s)"

lemma order_ok_step: "order_ok s \<Longrightarrow> order_ok (review_step rv_memory_ops ev s)"
  by (cases ev) (auto simp: order_ok_def rv_Park_def rv_Resolve_def rv_memory_defs Let_def insert_absorb domIff
      split: option.splits)

lemma order_ok_run: "order_ok s \<Longrightarrow> order_ok (review_run rv_memory_ops evs s)"
  by (induction evs arbitrary: s) (auto simp: review_run_def order_ok_step)

lemma rv_New_ok: "rm.queue_ok rv_NewMemoryStore" "order_ok rv_NewMemoryStore"
  by (simp_all add: rm.queue_ok_def order_ok_def rv_NewMemoryStore_def)

abbreviation (input) review_after :: "review_event list \<Rightarrow> review_memory" where
  "review_after evs \<equiv> review_run rv_memory_ops evs rv_NewMemoryStore"

text \<open>
  After every run of parking and resolving from the empty queue, each stored item carries its own
  decision identifier and is either pending without a resolution and without a resolution time, or
  resolved to allow or deny at a recorded time.
\<close>

theorem review_items_ok:
  assumes "rv_mem (review_run rv_memory_ops evs rv_NewMemoryStore) d = Some it"
  shows "rv_DecisionID it = d \<and> item_ok it"
  using rm.run_queue_ok [OF rv_New_ok(1), of evs] assms by (simp add: rm.queue_ok_def)


text \<open>
  The unfiltered listing shows every stored item exactly once, in the order in which the items were
  parked, and the listings of the pending and of the resolved items together are exactly that listing.
\<close>

theorem review_List_partition:
  assumes "s = review_run rv_memory_ops evs rv_NewMemoryStore"
  shows "\<exists>all pend res. rv_List rv_memory_ops [] s = Inr all
    \<and> rv_List rv_memory_ops rv_StatusPending s = Inr pend \<and> rv_List rv_memory_ops rv_StatusResolved s = Inr res
    \<and> map rv_DecisionID all = rv_order s \<and> distinct all \<and> set all = ran (rv_mem s) \<and> mset all = mset pend + mset res"
proof -
  have ok: "rm.queue_ok s" "order_ok s"
    using rm.run_queue_ok [OF rv_New_ok(1)] order_ok_run [OF rv_New_ok(2)] assms by auto
  define all where "all = map (\<lambda>d. case rv_mem s d of Some it \<Rightarrow> it | None \<Rightarrow> zero_review_item) (rv_order s)"
  have mem: "\<exists>it. rv_mem s d = Some it \<and> rv_DecisionID it = d \<and> item_ok it" if "d \<in> set (rv_order s)" for d
    using that ok by (auto simp: order_ok_def rm.queue_ok_def dom_def)
  have ids: "map rv_DecisionID all = rv_order s"
    unfolding all_def map_map by (rule map_idI) (use mem in fastforce)
  then have dist: "distinct all" using ok(2) by (metis distinct_map order_ok_def)
  have items: "item_ok it" if "it \<in> set all" for it
    using that mem unfolding all_def by fastforce
  have ran: "set all = ran (rv_mem s)"
    unfolding all_def using mem ok(2) by (force simp: order_ok_def ran_def dom_def image_def)
  have "filter (\<lambda>it. rv_Status it = rv_StatusResolved) all = filter (\<lambda>it. \<not> rv_Status it = rv_StatusPending) all"
    by (rule filter_cong) (auto dest: items simp: item_ok_def)
  then have "mset all = mset (filter (\<lambda>it. rv_Status it = rv_StatusPending) all) + mset (filter (\<lambda>it. rv_Status it = rv_StatusResolved) all)"
    by (simp add: multiset_partition [of "mset all"])
  with ids dist ran show ?thesis by (auto simp: rv_List_def rv_memory_defs all_def)
qed

section \<open>Instances\<close>

abbreviation (input) demo_env :: notify_env where
  "demo_env \<equiv> \<lparr>marshal_item = (\<lambda>_. Inr []), new_request = (\<lambda>_. None),
     do_request = (\<lambda>n. if n = 0 then HTTPStatus 503 else HTTPStatus 204), ctx_done = (\<lambda>_. None)\<rparr>"

abbreviation (input) demo_resolved :: review_item where
  "demo_resolved \<equiv> zero_review_item\<lparr>rv_DecisionID := ''d1'', rv_Status := rv_StatusResolved\<rparr>"

theorem NotifyResolution_delivered_witness:
  "fst (NotifyResolution demo_env (Some \<lparr>notifier_url = ''http://orch''\<rparr>) demo_resolved) = None"
proof -
  have "notify_ready demo_env \<lparr>notifier_url = ''http://orch''\<rparr> demo_resolved" by (simp add: notify_ready_def)
  from NotifyResolution_delivered [OF this] show ?thesis
    by (auto simp: accepted_def retryable_def intro!: exI [of _ "Suc 0"])
qed

abbreviation (input) demo_evs :: "review_event list" where
  "demo_evs \<equiv> [RVPark 1 ''d1'' [], RVResolve None 2 ''d1'' ''ann'' ResolutionAllow]"

definition demo_item :: review_item where
  "demo_item = zero_review_item\<lparr>rv_DecisionID := ''d1'', rv_Status := rv_StatusResolved, rv_AssignedTo := ''ann'',
     rv_CreatedAt := 1, rv_ResolvedAt := Some 2, rv_Resolution := ResolutionAllow\<rparr>"

lemma demo_run: "rv_mem (review_run rv_memory_ops demo_evs rv_NewMemoryStore) ''d1'' = Some demo_item"
  by (simp add: review_run_def rv_Park_def rv_Resolve_def rv_memory_defs rv_NewMemoryStore_def zero_review_item_def
      demo_item_def Let_def)

theorem review_items_ok_witness: "rv_DecisionID demo_item = ''d1'' \<and> item_ok demo_item"
  using demo_run by (rule review_items_ok)


theorem review_List_partition_witness:
  "\<exists>all. rv_List rv_memory_ops [] (review_run rv_memory_ops demo_evs rv_NewMemoryStore) = Inr all
     \<and> set all = ran (rv_mem (review_run rv_memory_ops demo_evs rv_NewMemoryStore))"
  using review_List_partition [OF refl, of demo_evs] by blast

end
