(* ===== verification/Audit_Log.thy ===== *)
theory Audit_Log
  imports Go_Float "HOL-Library.Sublist"
begin

text \<open>
  Package \<^verbatim>\<open>internal/audit\<close>: decision records, their Ed25519 signatures, the request hash and the
  asynchronous emission service with its bounded queue, its worker goroutine and its stores and sinks.

  Ed25519, SHA-256 and the JSON encoder are parameters; hexadecimal encoding is modelled. The goroutine
  is a step of the service that may be taken whenever it is enabled, so a run is any interleaving of
  \<^verbatim>\<open>Emit\<close> calls, worker rounds, the closing of the stop channel and the exit of the worker.
\<close>

section \<open>Records\<close>

definition AuditTopic :: string where
  "AuditTopic = ''audit.v1''"

record decision_record =
  dr_DecisionID :: string
  dr_PolicyVersion :: string
  dr_RequestHash :: string
  dr_Decision :: string
  dr_Reasons :: "string list"
  dr_AppliedRules :: "string list"
  dr_Score :: f64
  dr_CreatedAt :: gotime
  dr_Signature :: string

record audit_request =
  aq_UserID :: string
  aq_Amount :: string
  aq_Currency :: string
  aq_Asset :: string
  aq_Rail :: string
  aq_DestAddress :: string
  aq_DestChain :: string
  aq_KYTVerdict :: string
  aq_FraudScore :: f64
  aq_KYCStatus :: string

section \<open>Package encoding/hex\<close>

definition hex_digit :: "nat \<Rightarrow> char" where
  "hex_digit n = (if n < 10 then char_of (48 + n) else char_of (87 + n))"

definition hex_EncodeToString :: "string \<Rightarrow> string" where
  "hex_EncodeToString bs = concat (map (\<lambda>c. [hex_digit (of_char c div 16), hex_digit (of_char c mod 16)]) bs)"

definition hex_value :: "char \<Rightarrow> nat option" where
  "hex_value c =
     (let n = of_char c
      in if 48 \<le> n \<and> n \<le> (57::nat) then Some (n - 48)
         else if 97 \<le> n \<and> n \<le> 102 then Some (n - 87)
         else if 65 \<le> n \<and> n \<le> 70 then Some (n - 55)
         else None)"

definition hex_ErrLength :: gerror where
  "hex_ErrLength = Sentinel ''encoding/hex: odd length hex string''"

definition hex_InvalidByte :: "char \<Rightarrow> gerror" where
  "hex_InvalidByte c = ErrorNew (''encoding/hex: invalid byte: '' @ [c])"

fun hex_DecodeString :: "string \<Rightarrow> string result" where
  "hex_DecodeString [] = Inr []"
| "hex_DecodeString [c] = (case hex_value c of None \<Rightarrow> Inl (hex_InvalidByte c) | Some _ \<Rightarrow> Inl hex_ErrLength)"
| "hex_DecodeString (p # q # s) =
     (case hex_value p of
        None \<Rightarrow> Inl (hex_InvalidByte p)
      | Some a \<Rightarrow>
          (case hex_value q of
             None \<Rightarrow> Inl (hex_InvalidByte q)
           | Some b \<Rightarrow> (case hex_DecodeString s of Inl err \<Rightarrow> Inl err | Inr bs \<Rightarrow> Inr (char_of (16 * a + b) # bs))))"

section \<open>Signatures\<close>

text \<open>
  The parameters: Ed25519 (\<open>GenerateKey\<close> reads the random source, which may fail), SHA-256 and the JSON
  encoder of the two record types.
\<close>

record ('sk, 'pk) crypto =
  GenerateKey :: "('pk \<times> 'sk) result"
  ed_Public :: "'sk \<Rightarrow> 'pk"
  ed_pub_bytes :: "'pk \<Rightarrow> string"
  ed_Sign :: "'sk \<Rightarrow> string \<Rightarrow> string"
  ed_Verify :: "'pk \<Rightarrow> string \<Rightarrow> string \<Rightarrow> bool"
  sha256 :: "string \<Rightarrow> string"
  json_record :: "decision_record \<Rightarrow> string result"
  json_request :: "audit_request \<Rightarrow> string result"

record ('sk, 'pk) signer =
  sg_priv :: 'sk
  sg_pub :: 'pk

definition NewSigner :: "('sk, 'pk) crypto \<Rightarrow> 'sk option \<Rightarrow> ('sk, 'pk) signer result" where
  "NewSigner cr priv =
     (case priv of
        None \<Rightarrow> (case GenerateKey cr of Inl err \<Rightarrow> Inl err | Inr (pub, sk) \<Rightarrow> Inr \<lparr>sg_priv = sk, sg_pub = pub\<rparr>)
      | Some sk \<Rightarrow> Inr \<lparr>sg_priv = sk, sg_pub = ed_Public cr sk\<rparr>)"

definition PublicKeyHex :: "('sk, 'pk) crypto \<Rightarrow> ('sk, 'pk) signer \<Rightarrow> string" where
  "PublicKeyHex cr s = hex_EncodeToString (ed_pub_bytes cr (sg_pub s))"

definition canonicalJSON :: "('sk, 'pk) crypto \<Rightarrow> decision_record \<Rightarrow> string result" where
  "canonicalJSON cr rec = json_record cr (rec\<lparr>dr_Signature := []\<rparr>)"

definition signer_Sign :: "('sk, 'pk) crypto \<Rightarrow> ('sk, 'pk) signer \<Rightarrow> decision_record \<Rightarrow> string result" where
  "signer_Sign cr s rec =
     (case canonicalJSON cr rec of
        Inl err \<Rightarrow> Inl err
      | Inr payload \<Rightarrow> Inr (hex_EncodeToString (ed_Sign cr (sg_priv s) payload)))"

definition signer_Verify :: "('sk, 'pk) crypto \<Rightarrow> ('sk, 'pk) signer \<Rightarrow> decision_record \<Rightarrow> gerror option" where
  "signer_Verify cr s rec =
     (if dr_Signature rec = [] then Some (ErrorNew ''missing signature'')
      else case hex_DecodeString (dr_Signature rec) of
        Inl err \<Rightarrow> Some (Errorf ''decode signature: '' err)
      | Inr sig \<Rightarrow>
          (case canonicalJSON cr rec of
             Inl err \<Rightarrow> Some err
           | Inr payload \<Rightarrow>
               if \<not> ed_Verify cr (sg_pub s) payload sig then Some (ErrorNew ''signature verification failed'') else None))"

text \<open>The hash of the encoded request; an encoding error leaves the empty body.\<close>

definition RequestHash :: "('sk, 'pk) crypto \<Rightarrow> audit_request \<Rightarrow> string" where
  "RequestHash cr req = hex_EncodeToString (sha256 cr (case json_request cr req of Inl _ \<Rightarrow> [] | Inr body \<Rightarrow> body))"

section \<open>Stores and sinks\<close>

record 's audit_store_ops =
  as_Put :: "decision_record \<Rightarrow> 's \<Rightarrow> gerror option \<times> 's"
  as_Get :: "string \<Rightarrow> 's \<Rightarrow> decision_record option result"

record 'k audit_sink_ops =
  ak_Publish :: "decision_record \<Rightarrow> 'k \<Rightarrow> gerror option \<times> 'k"

type_synonym audit_memory = "string \<rightharpoonup> decision_record"

definition au_NewMemoryStore :: audit_memory where
  "au_NewMemoryStore = Map.empty"

definition au_memory_Put :: "decision_record \<Rightarrow> audit_memory \<Rightarrow> gerror option \<times> audit_memory" where
  "au_memory_Put rec mem =
     (if dr_DecisionID rec = [] then (Some (ErrorNew ''decision_id required''), mem)
      else (None, mem(dr_DecisionID rec \<mapsto> rec)))"

definition au_memory_Get :: "string \<Rightarrow> audit_memory \<Rightarrow> decision_record option result" where
  "au_memory_Get decisionID mem = Inr (mem decisionID)"

definition au_memory_Len :: "audit_memory \<Rightarrow> nat" where
  "au_memory_Len mem = card (dom mem)"

definition au_memory_ops :: "audit_memory audit_store_ops" where
  "au_memory_ops = \<lparr>as_Put = au_memory_Put, as_Get = au_memory_Get\<rparr>"

record memory_sink =
  ms_mem :: "decision_record list"
  ms_fail :: bool

definition NewMemorySink :: memory_sink where
  "NewMemorySink = \<lparr>ms_mem = [], ms_fail = False\<rparr>"

definition SetFail :: "bool \<Rightarrow> memory_sink \<Rightarrow> memory_sink" where
  "SetFail f s = s\<lparr>ms_fail := f\<rparr>"

definition memory_Publish :: "decision_record \<Rightarrow> memory_sink \<Rightarrow> gerror option \<times> memory_sink" where
  "memory_Publish rec s =
     (if ms_fail s then (Some (ErrorNew ''sink unavailable''), s)
      else (None, s\<lparr>ms_mem := ms_mem s @ [rec]\<rparr>))"

definition Records :: "memory_sink \<Rightarrow> decision_record list" where
  "Records s = ms_mem s"

definition memory_sink_ops :: "memory_sink audit_sink_ops" where
  "memory_sink_ops = \<lparr>ak_Publish = memory_Publish\<rparr>"

text \<open>
  The Kafka sink: the writer, the RFC 3339 formatter and the encoder of the envelope are parameters; the
  envelope is the list of its string entries with the record's own encoding as payload.
\<close>

record audit_envelope =
  env_fields :: "(string \<times> string) list"
  env_payload :: string

record 'k kafka =
  kafka_WriteMessages :: "string \<Rightarrow> string \<Rightarrow> 'k \<Rightarrow> gerror option \<times> 'k"
  kafka_Close :: "'k \<Rightarrow> gerror option \<times> 'k"
  format_rfc3339 :: "gotime \<Rightarrow> string"
  json_envelope :: "audit_envelope \<Rightarrow> string result"

definition NewKafkaSink :: "(string list \<Rightarrow> 'k) \<Rightarrow> string list \<Rightarrow> 'k option result" where
  "NewKafkaSink connect brokers =
     (if brokers = [] then Inl (ErrorNew ''audit kafka: no brokers provided'') else Inr (Some (connect brokers)))"

definition kafka_sink_Close :: "'k kafka \<Rightarrow> 'k option \<Rightarrow> gerror option \<times> 'k option" where
  "kafka_sink_Close k w = (case w of None \<Rightarrow> (None, None) | Some wr \<Rightarrow> map_prod id Some (kafka_Close k wr))"

definition envelope_of :: "('sk, 'pk) crypto \<Rightarrow> 'k kafka \<Rightarrow> decision_record \<Rightarrow> string \<Rightarrow> audit_envelope" where
  "envelope_of cr k rec payload =
     \<lparr>env_fields =
        [(''schema_version'', ''1''),
         (''id'', dr_DecisionID rec),
         (''ts'', format_rfc3339 k (dr_CreatedAt rec)),
         (''source_service'', ''policy-risk-engine''),
         (''actor_id'', ''policy-risk-engine''),
         (''action'', ''policy.evaluate''),
         (''target_type'', ''decision''),
         (''target_id'', dr_DecisionID rec),
         (''payload_hash'', ''sha256:'' @ hex_EncodeToString (sha256 cr payload))],
      env_payload = payload\<rparr>"

definition kafka_Publish ::
  "('sk, 'pk) crypto \<Rightarrow> 'k kafka \<Rightarrow> gotime \<Rightarrow> decision_record \<Rightarrow> 'k option \<Rightarrow> gerror option \<times> 'k option" where
  "kafka_Publish cr k now rec w =
     (case w of
        None \<Rightarrow> (Some (ErrorNew ''audit kafka: not connected''), None)
      | Some wr \<Rightarrow>
          let rec' = (if IsZero (dr_CreatedAt rec) then rec\<lparr>dr_CreatedAt := now\<rparr> else rec)
          in (case json_record cr rec' of
                Inl err \<Rightarrow> (Some err, w)
              | Inr payload \<Rightarrow>
                  (case json_envelope k (envelope_of cr k rec' payload) of
                     Inl err \<Rightarrow> (Some err, w)
                   | Inr body \<Rightarrow> map_prod id Some (kafka_WriteMessages k (dr_DecisionID rec') body wr))))"

section \<open>The emission service\<close>

definition ErrDropped :: gerror where
  "ErrDropped = Sentinel ''audit record dropped''"

definition ErrDuplicateDecision :: gerror where
  "ErrDuplicateDecision = Sentinel ''audit decision already exists''"

text \<open>The fixed parts of a service: its signer and its optional store and sink.\<close>

record ('sk, 'pk, 's, 'k) audit_deps =
  ad_crypto :: "('sk, 'pk) crypto"
  ad_signer :: "('sk, 'pk) signer"
  ad_store :: "'s audit_store_ops option"
  ad_sink :: "'k audit_sink_ops option"

record ('s, 'k) audit_service =
  au_store :: 's
  au_sink :: 'k
  au_queue :: "decision_record list"
  au_cap :: nat
  au_drops :: i64
  au_syncPersist :: bool
  au_stopped :: bool
  au_running :: bool

definition au_NewService :: "'s \<Rightarrow> 'k \<Rightarrow> int \<Rightarrow> ('s, 'k) audit_service" where
  "au_NewService store sink queueSize =
     \<lparr>au_store = store, au_sink = sink, au_queue = [],
      au_cap = nat (if queueSize \<le> 0 then 1024 else queueSize),
      au_drops = 0, au_syncPersist = False, au_stopped = False, au_running = True\<rparr>"

definition WithSyncPersist :: "('s, 'k) audit_service \<Rightarrow> ('s, 'k) audit_service" where
  "WithSyncPersist s = s\<lparr>au_syncPersist := True\<rparr>"

definition Drops :: "('s, 'k) audit_service \<Rightarrow> i64" where
  "Drops s = au_drops s"

definition add_drop :: "('s, 'k) audit_service \<Rightarrow> ('s, 'k) audit_service" where
  "add_drop s = s\<lparr>au_drops := au_drops s + 1\<rparr>"

definition enqueue :: "decision_record \<Rightarrow> ('s, 'k) audit_service \<Rightarrow> gerror option \<times> ('s, 'k) audit_service" where
  "enqueue rec s =
     (if length (au_queue s) < au_cap s then (None, s\<lparr>au_queue := au_queue s @ [rec]\<rparr>)
      else (Some ErrDropped, add_drop s))"

text \<open>The record as it is signed: stamped with the current time unless it has one.\<close>

definition stamped :: "gotime \<Rightarrow> decision_record \<Rightarrow> decision_record" where
  "stamped now rec = (if IsZero (dr_CreatedAt rec) then rec\<lparr>dr_CreatedAt := now\<rparr> else rec)"

definition audit_Emit ::
  "('sk, 'pk, 's, 'k) audit_deps \<Rightarrow> gotime \<Rightarrow> decision_record \<Rightarrow> ('s, 'k) audit_service \<Rightarrow> gerror option \<times> ('s, 'k) audit_service" where
  "audit_Emit d now rec s =
     (case signer_Sign (ad_crypto d) (ad_signer d) (stamped now rec) of
        Inl err \<Rightarrow> (Some (Errorf ''sign: '' err), s)
      | Inr sig \<Rightarrow>
          let rec' = (stamped now rec)\<lparr>dr_Signature := sig\<rparr>
          in (case (if au_syncPersist s then ad_store d else None) of
                None \<Rightarrow> enqueue rec' s
              | Some ops \<Rightarrow>
                  (case as_Put ops rec' (au_store s) of
                     (Some err, st) \<Rightarrow> (Some (Errorf ''persist: '' err), add_drop (s\<lparr>au_store := st\<rparr>))
                   | (None, st) \<Rightarrow> enqueue rec' (s\<lparr>au_store := st\<rparr>))))"

definition publish_record ::
  "('sk, 'pk, 's, 'k) audit_deps \<Rightarrow> decision_record \<Rightarrow> ('s, 'k) audit_service \<Rightarrow> ('s, 'k) audit_service" where
  "publish_record d rec s =
     (case ad_sink d of
        None \<Rightarrow> s
      | Some ops \<Rightarrow>
          (case ak_Publish ops rec (au_sink s) of
             (Some err, k) \<Rightarrow> add_drop (s\<lparr>au_sink := k\<rparr>)
           | (None, k) \<Rightarrow> s\<lparr>au_sink := k\<rparr>))"

text \<open>One round of the worker's loop that receives a record.\<close>

definition audit_work :: "('sk, 'pk, 's, 'k) audit_deps \<Rightarrow> ('s, 'k) audit_service \<Rightarrow> ('s, 'k) audit_service" where
  "audit_work d s =
     (case au_queue s of
        [] \<Rightarrow> s
      | rec # q \<Rightarrow>
          let s' = s\<lparr>au_queue := q\<rparr>
          in (case (if \<not> au_syncPersist s then ad_store d else None) of
                None \<Rightarrow> publish_record d rec s'
              | Some ops \<Rightarrow>
                  (case as_Put ops rec (au_store s') of
                     (Some err, st) \<Rightarrow> add_drop (s'\<lparr>au_store := st\<rparr>)
                   | (None, st) \<Rightarrow> publish_record d rec (s'\<lparr>au_store := st\<rparr>))))"

text \<open>\<^verbatim>\<open>Close\<close> closes the stop channel and then waits for the worker, which leaves its loop at some later step.\<close>

definition audit_Close :: "('s, 'k) audit_service \<Rightarrow> ('s, 'k) audit_service" where
  "audit_Close s = s\<lparr>au_stopped := True\<rparr>"

datatype audit_event = Emit gotime decision_record | Work | Close | WorkerExit

definition audit_step ::
  "('sk, 'pk, 's, 'k) audit_deps \<Rightarrow> audit_event \<Rightarrow> ('s, 'k) audit_service \<Rightarrow> ('s, 'k) audit_service" where
  "audit_step d ev s =
     (case ev of
        Emit now rec \<Rightarrow> snd (audit_Emit d now rec s)
      | Work \<Rightarrow> if au_running s then audit_work d s else s
      | Close \<Rightarrow> audit_Close s
      | WorkerExit \<Rightarrow> if au_stopped s then s\<lparr>au_running := False\<rparr> else s)"

definition audit_run ::
  "('sk, 'pk, 's, 'k) audit_deps \<Rightarrow> audit_event list \<Rightarrow> ('s, 'k) audit_service \<Rightarrow> ('s, 'k) audit_service" where
  "audit_run d evs s = fold (audit_step d) evs s"

section \<open>Hexadecimal round trip and signatures\<close>

lemma hex_value_digit: "n < 16 \<Longrightarrow> hex_value (hex_digit n) = Some n"
  by (auto simp: hex_digit_def hex_value_def Let_def)

lemma hex_value_byte [simp]:
  "hex_value (hex_digit (of_char c div 16)) = Some (of_char c div 16)"
  "hex_value (hex_digit (of_char c mod 16)) = Some (of_char c mod 16)"
proof -
  have "of_char c < (256 :: nat)" by (rule nat_of_char_less_256)
  then have "of_char c div 16 < (16 :: nat)" by (rule less_mult_imp_div_less [of _ 16 16, simplified])
  then show "hex_value (hex_digit (of_char c div 16)) = Some (of_char c div 16)" by (rule hex_value_digit)
  show "hex_value (hex_digit (of_char c mod 16)) = Some (of_char c mod 16)" by (rule hex_value_digit) simp
qed

lemma hex_round_trip [simp]: "hex_DecodeString (hex_EncodeToString bs) = Inr bs"
  by (induction bs) (simp_all add: hex_EncodeToString_def)

lemma hex_EncodeToString_Nil [simp]: "hex_EncodeToString bs = [] \<longleftrightarrow> bs = []"
  by (cases bs) (simp_all add: hex_EncodeToString_def)

lemma hex_EncodeToString_length: "length (hex_EncodeToString bs) = 2 * length bs"
  by (induction bs) (simp_all add: hex_EncodeToString_def)

lemma hex_EncodeToString_inject: "hex_EncodeToString x = hex_EncodeToString y \<longleftrightarrow> x = y"
  by (metis hex_round_trip sum.inject(2))

lemma canonicalJSON_Signature [simp]: "canonicalJSON cr (rec\<lparr>dr_Signature := sig\<rparr>) = canonicalJSON cr rec"
  by (simp add: canonicalJSON_def)


text \<open>A concrete cryptographic environment: the signature of a text is the text behind a mark.\<close>

definition demo_crypto :: "(unit, unit) crypto" where
  "demo_crypto = \<lparr>GenerateKey = Inr ((), ()), ed_Public = (\<lambda>_. ()), ed_pub_bytes = (\<lambda>_. ''p''),
     ed_Sign = (\<lambda>_ m. ''s'' @ m), ed_Verify = (\<lambda>_ m sig. sig = ''s'' @ m), sha256 = id,
     json_record = (\<lambda>r. case dr_Score r of Fin _ _ \<Rightarrow> Inr (dr_DecisionID r) | _ \<Rightarrow> Inl (ErrorNew ''json: unsupported value'')),
     json_request = (\<lambda>r. case aq_FraudScore r of Fin _ _ \<Rightarrow> Inr (aq_UserID r) | _ \<Rightarrow> Inl (ErrorNew ''json: unsupported value''))\<rparr>"

definition demo_signer :: "(unit, unit) signer" where
  "demo_signer = \<lparr>sg_priv = (), sg_pub = ()\<rparr>"

definition demo_record :: "string \<Rightarrow> decision_record" where
  "demo_record i = \<lparr>dr_DecisionID = i, dr_PolicyVersion = ''v'', dr_RequestHash = [], dr_Decision = ''allow'', dr_Reasons = [],
     dr_AppliedRules = [], dr_Score = Fin False 0, dr_CreatedAt = 1, dr_Signature = []\<rparr>"

lemma demo_Sign: "signer_Sign demo_crypto demo_signer (demo_record ''d'') = Inr ''7364''"
  by code_simp


text \<open>
  The request hash ignores an encoding error: as JSON has no encoding for a non-finite number, all
  requests whose fraud score is NaN or infinite have one and the same request hash, whatever their user,
  amount and destination.
\<close>
theorem RequestHash_nonfinite_collision:
  assumes "\<forall>r. (\<forall>n q. aq_FraudScore r \<noteq> Fin n q) \<longrightarrow> (\<exists>err. json_request cr r = Inl err)"
    and "\<forall>n q. aq_FraudScore r \<noteq> Fin n q" and "\<forall>n q. aq_FraudScore r' \<noteq> Fin n q"
  shows "RequestHash cr r = RequestHash cr r'"
proof -
  from assms obtain e e' where "json_request cr r = Inl e" and "json_request cr r' = Inl e'" by blast
  then show ?thesis by (simp add: RequestHash_def)
qed

definition demo_request :: "string \<Rightarrow> f64 \<Rightarrow> audit_request" where
  "demo_request u score = \<lparr>aq_UserID = u, aq_Amount = ''1'', aq_Currency = ''USD'', aq_Asset = ''BTC'', aq_Rail = ''card'',
     aq_DestAddress = ''a'', aq_DestChain = ''btc'', aq_KYTVerdict = [], aq_FraudScore = score, aq_KYCStatus = []\<rparr>"

theorem RequestHash_nonfinite_collision_witness:
  "RequestHash demo_crypto (demo_request ''alice'' NaN) = RequestHash demo_crypto (demo_request ''bob'' (Inf True))"
  by (rule RequestHash_nonfinite_collision) (auto simp: demo_crypto_def demo_request_def split: f64.splits)

section \<open>The store contract\<close>

lemma add_drop_fields [simp]:
  "au_store (add_drop s) = au_store s" "au_sink (add_drop s) = au_sink s" "au_queue (add_drop s) = au_queue s"
  "au_cap (add_drop s) = au_cap s" "au_drops (add_drop s) = au_drops s + 1" "au_syncPersist (add_drop s) = au_syncPersist s"
  "au_running (add_drop s) = au_running s" "au_stopped (add_drop s) = au_stopped s"
  by (simp_all add: add_drop_def)

lemma enqueue_fields [simp]:
  "au_store (snd (enqueue r s)) = au_store s" "au_sink (snd (enqueue r s)) = au_sink s"
  "au_cap (snd (enqueue r s)) = au_cap s" "au_syncPersist (snd (enqueue r s)) = au_syncPersist s"
  "au_running (snd (enqueue r s)) = au_running s" "au_stopped (snd (enqueue r s)) = au_stopped s"
  by (simp_all add: enqueue_def)

lemma publish_record_fields [simp]:
  "au_store (publish_record d r s) = au_store s" "au_queue (publish_record d r s) = au_queue s"
  "au_cap (publish_record d r s) = au_cap s" "au_syncPersist (publish_record d r s) = au_syncPersist s"
  "au_running (publish_record d r s) = au_running s" "au_stopped (publish_record d r s) = au_stopped s"
  by (simp_all add: publish_record_def split: option.splits prod.splits)

lemma audit_Emit_fields [simp]:
  "au_sink (snd (audit_Emit d now rec s)) = au_sink s" "au_cap (snd (audit_Emit d now rec s)) = au_cap s"
  "au_syncPersist (snd (audit_Emit d now rec s)) = au_syncPersist s"
  "au_running (snd (audit_Emit d now rec s)) = au_running s" "au_stopped (snd (audit_Emit d now rec s)) = au_stopped s"
  by (simp_all add: audit_Emit_def Let_def split: sum.splits option.splits prod.splits)

lemma audit_work_fields [simp]:
  "au_cap (audit_work d s) = au_cap s" "au_syncPersist (audit_work d s) = au_syncPersist s"
  "au_running (audit_work d s) = au_running s" "au_stopped (audit_work d s) = au_stopped s"
  by (simp_all add: audit_work_def Let_def split: list.splits option.splits prod.splits)

lemma audit_step_config [simp]:
  "au_cap (audit_step d ev s) = au_cap s" "au_syncPersist (audit_step d ev s) = au_syncPersist s"
  by (simp_all add: audit_step_def audit_Close_def split: audit_event.splits)

text \<open>
  What the service relies on: a stored record is found under its id, other records are not touched, and a
  failing \<^verbatim>\<open>Put\<close> stores nothing.
\<close>

locale audit_store =
  fixes ops :: "'s audit_store_ops"
  assumes Put_Get: "as_Put ops rec st = (None, st') \<Longrightarrow> as_Get ops (dr_DecisionID rec) st' = Inr (Some rec)"
    and Put_other: "as_Put ops rec st = (None, st') \<Longrightarrow> i \<noteq> dr_DecisionID rec \<Longrightarrow> as_Get ops i st' = as_Get ops i st"
    and Put_error: "as_Put ops rec st = (Some err, st') \<Longrightarrow> st' = st"
begin

lemma sync_Emit_stored:
  assumes "au_syncPersist s" and "ad_store d = Some ops" and "audit_Emit d now rec s = (e, s')"
    and "e = None \<or> e = Some ErrDropped"
  shows "\<exists>sig. signer_Sign (ad_crypto d) (ad_signer d) (stamped now rec) = Inr sig
     \<and> as_Get ops (dr_DecisionID rec) (au_store s') = Inr (Some ((stamped now rec)\<lparr>dr_Signature := sig\<rparr>))"
proof -
  from assms obtain sig where sig: "signer_Sign (ad_crypto d) (ad_signer d) (stamped now rec) = Inr sig"
    by (auto simp: audit_Emit_def ErrDropped_def split: sum.splits)
  let ?r = "(stamped now rec)\<lparr>dr_Signature := sig\<rparr>"
  obtain st where put: "as_Put ops ?r (au_store s) = (None, st)"
  proof (cases "as_Put ops ?r (au_store s)")
    case (Pair p st)
    with assms sig that show ?thesis by (cases p) (auto simp: audit_Emit_def ErrDropped_def)
  qed
  then have "au_store s' = st"
    using assms sig by (auto simp: audit_Emit_def enqueue_def add_drop_def split: if_splits)
  moreover have "dr_DecisionID ?r = dr_DecisionID rec" by (simp add: stamped_def)
  ultimately show ?thesis using Put_Get [OF put] sig by metis
qed

lemma Emit_other:
  assumes "ad_store d = Some ops" and "i \<noteq> dr_DecisionID rec"
  shows "as_Get ops i (au_store (snd (audit_Emit d now rec s))) = as_Get ops i (au_store s)"
proof (cases "signer_Sign (ad_crypto d) (ad_signer d) (stamped now rec)")
  case (Inl err)
  then show ?thesis by (simp add: audit_Emit_def)
next
  case (Inr sig)
  let ?r = "(stamped now rec)\<lparr>dr_Signature := sig\<rparr>"
  obtain p st where put: "as_Put ops ?r (au_store s) = (p, st)" by (cases "as_Put ops ?r (au_store s)")
  have "i \<noteq> dr_DecisionID ?r" using assms(2) by (simp add: stamped_def)
  then have "as_Get ops i st = as_Get ops i (au_store s)"
    using Put_other [of ?r "au_store s" st] Put_error [of ?r "au_store s" _ st] put by (cases p) simp_all
  with Inr put assms(1) show ?thesis
    by (cases p) (auto simp: audit_Emit_def enqueue_def add_drop_def)
qed

lemma Work_sync:
  assumes "ad_store d = Some ops" and "au_syncPersist s"
  shows "au_store (audit_work d s) = au_store s"
  using assms by (simp add: audit_work_def Let_def split: list.splits)

lemma step_keeps_record:
  assumes "ad_store d = Some ops" and "au_syncPersist s" and "\<And>now rec. ev = Emit now rec \<Longrightarrow> dr_DecisionID rec \<noteq> i"
  shows "as_Get ops i (au_store (audit_step d ev s)) = as_Get ops i (au_store s)"
proof (cases ev)
  case (Emit now rec)
  with assms(3) have "i \<noteq> dr_DecisionID rec" by blast
  with Emit show ?thesis using Emit_other [OF assms(1)] by (simp add: audit_step_def)
next
  case Work
  with Work_sync [OF assms(1,2)] show ?thesis by (simp add: audit_step_def)
qed (simp_all add: audit_step_def audit_Close_def)

lemma run_keeps_record:
  assumes "ad_store d = Some ops" and "au_syncPersist s"
    and "\<And>now rec. Emit now rec \<in> set evs \<Longrightarrow> dr_DecisionID rec \<noteq> i"
  shows "as_Get ops i (au_store (audit_run d evs s)) = as_Get ops i (au_store s)"
  using assms(2,3)
proof (induction evs arbitrary: s)
  case Nil
  then show ?case by (simp add: audit_run_def)
next
  case (Cons ev evs)
  have "as_Get ops i (au_store (audit_step d ev s)) = as_Get ops i (au_store s)"
    by (rule step_keeps_record [OF assms(1) Cons.prems(1)]) (use Cons.prems(2) in auto)
  moreover have "as_Get ops i (au_store (audit_run d evs (audit_step d ev s))) = as_Get ops i (au_store (audit_step d ev s))"
    using Cons.prems by (intro Cons.IH) auto
  ultimately show ?case by (simp add: audit_run_def)
qed

end

interpretation am: audit_store au_memory_ops
  by unfold_locales (auto simp: au_memory_ops_def au_memory_Put_def au_memory_Get_def split: if_splits)



definition demo_deps :: "(unit, unit, audit_memory, memory_sink) audit_deps" where
  "demo_deps = \<lparr>ad_crypto = demo_crypto, ad_signer = demo_signer, ad_store = Some au_memory_ops, ad_sink = Some memory_sink_ops\<rparr>"


section \<open>Accounting\<close>

definition signed_record :: "('sk, 'pk, 's, 'k) audit_deps \<Rightarrow> gotime \<Rightarrow> decision_record \<Rightarrow> decision_record option" where
  "signed_record d now rec =
     (case signer_Sign (ad_crypto d) (ad_signer d) (stamped now rec) of
        Inl _ \<Rightarrow> None | Inr sig \<Rightarrow> Some ((stamped now rec)\<lparr>dr_Signature := sig\<rparr>))"

text \<open>The signed records of the emissions of a run, in order.\<close>

definition emitted :: "('sk, 'pk, 's, 'k) audit_deps \<Rightarrow> audit_event list \<Rightarrow> decision_record list" where
  "emitted d evs = List.map_filter (\<lambda>ev. case ev of Emit now rec \<Rightarrow> signed_record d now rec | _ \<Rightarrow> None) evs"

text \<open>The accounting invariant of a service with the in-memory sink after the emissions \<open>xs\<close>.\<close>

definition accounted :: "decision_record list \<Rightarrow> ('s, memory_sink) audit_service \<Rightarrow> bool" where
  "accounted xs s \<longleftrightarrow>
     subseq (ms_mem (au_sink s) @ au_queue s) xs
     \<and> of_nat (length xs) = of_nat (length (ms_mem (au_sink s) @ au_queue s)) + au_drops s
     \<and> length (au_queue s) \<le> au_cap s"

lemma accounted_store [simp]: "accounted xs (s\<lparr>au_store := st\<rparr>) = accounted xs s"
  by (simp add: accounted_def)

lemma accounted_drop: "accounted xs s \<Longrightarrow> accounted (xs @ [r]) (add_drop s)"
  by (auto simp: accounted_def intro: subseq_rev_drop_many)

lemma accounted_enqueue: "accounted xs s \<Longrightarrow> accounted (xs @ [r]) (snd (enqueue r s))"
proof (cases "length (au_queue s) < au_cap s")
  case True
  assume a: "accounted xs s"
  then have "subseq ((ms_mem (au_sink s) @ au_queue s) @ [r]) (xs @ [r])"
    by (simp only: accounted_def subseq_append)
  with a True show ?thesis by (simp add: accounted_def enqueue_def)
next
  case False
  assume "accounted xs s"
  with False show ?thesis by (simp add: enqueue_def accounted_drop)
qed

lemma accounted_Emit:
  assumes "accounted xs s"
  shows "accounted (xs @ emitted d [Emit now rec]) (snd (audit_Emit d now rec s))"
proof (cases "signer_Sign (ad_crypto d) (ad_signer d) (stamped now rec)")
  case (Inl err)
  with assms show ?thesis by (simp add: audit_Emit_def emitted_def signed_record_def List.map_filter_simps)
next
  case (Inr sig)
  let ?r = "(stamped now rec)\<lparr>dr_Signature := sig\<rparr>"
  have "emitted d [Emit now rec] = [?r]" using Inr by (simp add: emitted_def signed_record_def List.map_filter_simps)
  moreover have "accounted (xs @ [?r]) (snd (audit_Emit d now rec s))"
    using assms Inr unfolding audit_Emit_def
    by (auto simp: Let_def accounted_drop accounted_enqueue split: option.splits prod.splits)
  ultimately show ?thesis by simp
qed

text \<open>Taking the head off the queue and publishing it, or counting it as dropped, keeps the account.\<close>

lemma accounted_lose:
  assumes "accounted xs s" and "au_queue s = r # q"
  shows "accounted xs (add_drop (s\<lparr>au_queue := q\<rparr>))"
proof -
  have "subseq (ms_mem (au_sink s) @ q) (ms_mem (au_sink s) @ r # q)" by (simp add: subseq_append' list_emb_Cons)
  with assms show ?thesis unfolding accounted_def by (auto intro: subseq_order.trans)
qed

lemma accounted_publish:
  assumes "accounted xs s" and "au_queue s = r # q" and "ad_sink d = Some memory_sink_ops"
  shows "accounted xs (publish_record d r (s\<lparr>au_queue := q\<rparr>))"
proof (cases "ms_fail (au_sink s)")
  case True
  with assms(3) have "publish_record d r (s\<lparr>au_queue := q\<rparr>) = add_drop (s\<lparr>au_queue := q, au_sink := au_sink s\<rparr>)"
    by (simp add: publish_record_def memory_sink_ops_def memory_Publish_def)
  with accounted_lose [OF assms(1,2)] show ?thesis by (simp add: accounted_def)
next
  case False
  with assms show ?thesis
    by (simp add: publish_record_def memory_sink_ops_def memory_Publish_def accounted_def)
qed

lemma accounted_Work:
  assumes "accounted xs s" and "ad_sink d = Some memory_sink_ops"
  shows "accounted xs (audit_work d s)"
proof (cases "au_queue s")
  case Nil
  with assms show ?thesis by (simp add: audit_work_def)
next
  case (Cons r q)
  have swap: "s\<lparr>au_queue := q, au_store := st\<rparr> = s\<lparr>au_store := st, au_queue := q\<rparr>" for st
    by (cases s) simp
  have pub: "accounted xs (publish_record d r (s\<lparr>au_queue := q, au_store := st\<rparr>))" for st
    using accounted_publish [of xs "s\<lparr>au_store := st\<rparr>" r q d] assms Cons unfolding swap by simp
  have lose: "accounted xs (add_drop (s\<lparr>au_queue := q, au_store := st\<rparr>))" for st
    using accounted_lose [of xs "s\<lparr>au_store := st\<rparr>" r q] assms Cons unfolding swap by simp
  from pub lose accounted_publish [OF assms(1) Cons assms(2)] Cons show ?thesis
    unfolding audit_work_def by (auto simp: Let_def split: option.splits prod.splits)
qed

lemma accounted_step:
  assumes "accounted xs s" and "ad_sink d = Some memory_sink_ops"
  shows "accounted (xs @ emitted d [ev]) (audit_step d ev s)"
proof (cases ev)
  case (Emit now rec)
  with accounted_Emit [OF assms(1)] show ?thesis by (simp add: audit_step_def)
next
  case Work
  with assms accounted_Work [OF assms] show ?thesis by (simp add: audit_step_def emitted_def List.map_filter_simps)
qed (use assms(1) in \<open>simp_all add: audit_step_def audit_Close_def emitted_def List.map_filter_simps accounted_def\<close>)

lemma emitted_snoc: "emitted d (evs @ [ev]) = emitted d evs @ emitted d [ev]"
  by (simp add: emitted_def List.map_filter_def)

text \<open>
  C18: No record is lost silently while the service runs: over every interleaving of emissions, worker
  rounds and shutdown, the published records followed by the queued ones are the signed emissions in
  their order with the dropped ones left out, each dropped one is counted (modulo the width of the
  counter), and the queue never exceeds its capacity.
\<close>
theorem audit_accounting:
  assumes "ad_sink d = Some memory_sink_ops" and "ms_mem sink = []"
    and "s0 = au_NewService store sink qsize \<or> s0 = WithSyncPersist (au_NewService store sink qsize)"
    and "s = audit_run d evs s0"
  shows "subseq (Records (au_sink s) @ au_queue s) (emitted d evs)
     \<and> of_nat (length (emitted d evs)) = of_nat (length (Records (au_sink s)) + length (au_queue s)) + Drops s
     \<and> length (au_queue s) \<le> au_cap s0"
proof -
  have "accounted (emitted d evs) (audit_run d evs s0) \<and> au_cap (audit_run d evs s0) = au_cap s0"
  proof (induction evs rule: rev_induct)
    case Nil
    show ?case using assms(2,3)
      by (auto simp: audit_run_def accounted_def emitted_def List.map_filter_simps au_NewService_def WithSyncPersist_def)
  next
    case (snoc ev evs)
    with accounted_step [OF _ assms(1)] show ?case by (simp add: audit_run_def emitted_snoc)
  qed
  then show ?thesis using assms(4) by (auto simp: accounted_def Records_def Drops_def)
qed

theorem audit_accounting_witness:
  "let s0 = au_NewService au_NewMemoryStore NewMemorySink 1;
       evs = [Emit 1 (demo_record ''a''), Emit 2 (demo_record ''b''), Work];
       s = audit_run demo_deps evs s0
   in subseq (Records (au_sink s) @ au_queue s) (emitted demo_deps evs)
     \<and> of_nat (length (emitted demo_deps evs)) = of_nat (length (Records (au_sink s)) + length (au_queue s)) + Drops s
     \<and> length (au_queue s) \<le> au_cap s0"
  unfolding Let_def
  by (rule audit_accounting [where sink = NewMemorySink and store = au_NewMemoryStore and qsize = 1])
     (simp_all add: demo_deps_def NewMemorySink_def)

section \<open>Progress of the worker\<close>

text \<open>
  One step of a service with synchronous persistence and a working sink: the published records followed by the
  queued ones only grow at the end, and a round of the worker moves one record from the queue to the sink.
\<close>

lemma sync_worker_step:
  assumes "au_syncPersist s" and "au_running s" and "ev \<noteq> WorkerExit" and "ad_sink d = Some memory_sink_ops" and "\<not> ms_fail (au_sink s)"
    and "s' = audit_step d ev s"
  shows "au_syncPersist s' \<and> au_running s' \<and> \<not> ms_fail (au_sink s')"
    and "prefix (Records (au_sink s) @ au_queue s) (Records (au_sink s') @ au_queue s')"
    and "length (Records (au_sink s')) = length (Records (au_sink s)) + (if ev = Work \<and> au_queue s \<noteq> [] then 1 else 0)"
proof -
  have emit: "au_sink (snd (audit_Emit d now rec s)) = au_sink s \<and> prefix (au_queue s) (au_queue (snd (audit_Emit d now rec s)))" for now rec
    unfolding audit_Emit_def by (auto simp: enqueue_def add_drop_def Let_def split: sum.splits option.splits prod.splits)
  have "(au_syncPersist s' \<and> au_running s' \<and> \<not> ms_fail (au_sink s'))
    \<and> prefix (Records (au_sink s) @ au_queue s) (Records (au_sink s') @ au_queue s')
    \<and> length (Records (au_sink s')) = length (Records (au_sink s)) + (if ev = Work \<and> au_queue s \<noteq> [] then 1 else 0)"
  proof (cases ev)
    case (Emit now rec)
    with emit [of now rec] assms show ?thesis by (simp add: audit_step_def)
  next
    case Work
    with assms show ?thesis
      by (cases "au_queue s")
        (simp_all add: audit_step_def audit_work_def publish_record_def memory_sink_ops_def memory_Publish_def Records_def)
  qed (use assms in \<open>simp_all add: audit_step_def audit_Close_def\<close>)
  then show "au_syncPersist s' \<and> au_running s' \<and> \<not> ms_fail (au_sink s')"
    and "prefix (Records (au_sink s) @ au_queue s) (Records (au_sink s') @ au_queue s')"
    and "length (Records (au_sink s')) = length (Records (au_sink s)) + (if ev = Work \<and> au_queue s \<noteq> [] then 1 else 0)"
    by blast+
qed

lemma sync_worker_run:
  assumes "au_syncPersist s" and "au_running s" and "WorkerExit \<notin> set evs" and "ad_sink d = Some memory_sink_ops" and "\<not> ms_fail (au_sink s)"
  shows "prefix (Records (au_sink s) @ au_queue s) (Records (au_sink (audit_run d evs s)) @ au_queue (audit_run d evs s))
     \<and> length (Records (au_sink s)) + min (length (au_queue s)) (count_list evs Work) \<le> length (Records (au_sink (audit_run d evs s)))"
  using assms
proof (induction evs arbitrary: s)
  case Nil
  then show ?case by (simp add: audit_run_def)
next
  case (Cons ev evs)
  let ?s = "audit_step d ev s"
  have "ev \<noteq> WorkerExit" using Cons.prems(3) by auto
  note step = sync_worker_step [OF Cons.prems(1,2) this Cons.prems(4,5) refl]
  have IH: "prefix (Records (au_sink ?s) @ au_queue ?s) (Records (au_sink (audit_run d evs ?s)) @ au_queue (audit_run d evs ?s))"
    "length (Records (au_sink ?s)) + min (length (au_queue ?s)) (count_list evs Work) \<le> length (Records (au_sink (audit_run d evs ?s)))"
    using Cons.IH [of ?s] Cons.prems(3,4) step(1) by auto
  have run: "audit_run d (ev # evs) s = audit_run d evs ?s" by (simp add: audit_run_def)
  have "length (Records (au_sink s)) + length (au_queue s) \<le> length (Records (au_sink ?s)) + length (au_queue ?s)"
    using prefix_length_le [OF step(2)] by simp
  with IH(2) step(3) have "length (Records (au_sink s)) + min (length (au_queue s)) (count_list (ev # evs) Work)
      \<le> length (Records (au_sink (audit_run d evs ?s)))" by (auto split: if_splits)
  with IH(1) step(2) show ?case unfolding run by (auto intro: prefix_order.trans)
qed



section \<open>Shutdown\<close>

lemma stopped_worker_step:
  assumes "\<not> au_running s" and "\<not> au_syncPersist s"
  shows "au_store (audit_step d ev s) = au_store s \<and> au_sink (audit_step d ev s) = au_sink s
     \<and> \<not> au_running (audit_step d ev s) \<and> \<not> au_syncPersist (audit_step d ev s)"
  using assms by (auto simp: audit_step_def audit_Close_def audit_Emit_def enqueue_def split: audit_event.splits sum.splits)

text \<open>
  C35: \<^verbatim>\<open>Close\<close> does not drain the queue: once the stop channel is closed the worker may leave its loop with
  records still queued, and from then on, without synchronous persistence, nothing reaches the store or the
  sink any more, although \<^verbatim>\<open>Emit\<close> keeps accepting records without an error while the queue has room.
\<close>
theorem close_abandons_queue:
  assumes "\<not> au_syncPersist s" and "s' = audit_run d ([Close, WorkerExit] @ evs) s"
  shows "au_store s' = au_store s \<and> au_sink s' = au_sink s
     \<and> (\<forall>now rec. (\<exists>r. signed_record d now rec = Some r) \<and> length (au_queue s') < au_cap s'
           \<longrightarrow> fst (audit_Emit d now rec s') = None)"
proof -
  let ?s1 = "audit_run d [Close, WorkerExit] s"
  have s1: "au_store ?s1 = au_store s" "au_sink ?s1 = au_sink s" "\<not> au_running ?s1" "\<not> au_syncPersist ?s1"
    using assms(1) by (simp_all add: audit_run_def audit_step_def audit_Close_def)
  have "au_store (audit_run d evs t) = au_store t \<and> au_sink (audit_run d evs t) = au_sink t \<and> \<not> au_syncPersist (audit_run d evs t)"
    if "\<not> au_running t" "\<not> au_syncPersist t" for t
    using that
  proof (induction evs arbitrary: t)
    case Nil
    then show ?case by (simp add: audit_run_def)
  next
    case (Cons ev evs)
    from stopped_worker_step [OF Cons.prems, of d ev] Cons.IH [of "audit_step d ev t"] show ?case
      by (simp add: audit_run_def)
  qed
  from this [OF s1(3,4)] s1 assms(2) have "au_store s' = au_store s \<and> au_sink s' = au_sink s \<and> \<not> au_syncPersist s'"
    by (simp add: audit_run_def)
  then show ?thesis
    by (auto simp: audit_Emit_def signed_record_def enqueue_def split: sum.splits)
qed

theorem close_abandons_queue_witness:
  "let s = audit_run demo_deps [Emit 1 (demo_record ''a'')] (au_NewService au_NewMemoryStore NewMemorySink 1);
       s' = audit_run demo_deps ([Close, WorkerExit] @ [Work]) s
   in length (au_queue s) = 1 \<and> au_store s' = au_store s \<and> au_sink s' = au_sink s"
proof -
  let ?s = "audit_run demo_deps [Emit 1 (demo_record ''a'')] (au_NewService au_NewMemoryStore NewMemorySink 1)"
  have "\<not> au_syncPersist ?s" by (simp add: audit_run_def au_NewService_def)
  from close_abandons_queue [OF this refl, of demo_deps "[Work]"]
  have "au_store (audit_run demo_deps ([Close, WorkerExit] @ [Work]) ?s) = au_store ?s
      \<and> au_sink (audit_run demo_deps ([Close, WorkerExit] @ [Work]) ?s) = au_sink ?s" by blast
  moreover have "length (au_queue ?s) = 1" by code_simp
  ultimately show ?thesis by (simp add: Let_def)
qed

end
