(* ===== verification/Metrics.thy ===== *)
theory Metrics
  imports Go_Strconv
begin

text \<open>
  Package \<^verbatim>\<open>internal/metrics\<close>: the process-wide counters, each an atomic 64-bit integer whose additions
  wrap, and their Prometheus text rendering.
\<close>

record metrics =
  EvaluateTotal :: i64
  EvaluateDurationSum :: i64
  EvaluateDurationCount :: i64
  AllowTotal :: i64
  DenyTotal :: i64
  ManualReviewTotal :: i64
  VelocityRollbacks :: i64
  HotReloadSwaps :: i64
  AuditDrops :: i64
  ReviewPending :: i64

definition zero_metrics :: metrics where
  "zero_metrics = \<lparr>EvaluateTotal = 0, EvaluateDurationSum = 0, EvaluateDurationCount = 0, AllowTotal = 0, DenyTotal = 0,
     ManualReviewTotal = 0, VelocityRollbacks = 0, HotReloadSwaps = 0, AuditDrops = 0, ReviewPending = 0\<rparr>"

definition ObserveEvaluateDuration :: "i64 \<Rightarrow> metrics \<Rightarrow> metrics" where
  "ObserveEvaluateDuration nanos m =
     m\<lparr>EvaluateDurationSum := EvaluateDurationSum m + nanos, EvaluateDurationCount := EvaluateDurationCount m + 1\<rparr>"

definition nl :: string where
  "nl = [CHR 0x0A]"

definition writeCounter :: "string \<Rightarrow> i64 \<Rightarrow> string" where
  "writeCounter name v = ''# TYPE '' @ name @ '' counter'' @ nl @ name @ '' '' @ Itoa (sint v) @ nl"

definition writeGauge :: "string \<Rightarrow> i64 \<Rightarrow> string" where
  "writeGauge name v = ''# TYPE '' @ name @ '' gauge'' @ nl @ name @ '' '' @ Itoa (sint v) @ nl"

definition writeHistogram :: "string \<Rightarrow> i64 \<Rightarrow> i64 \<Rightarrow> string" where
  "writeHistogram name dsum dcount =
     ''# TYPE '' @ name @ '' histogram'' @ nl @ name @ ''_sum '' @ Itoa (sint dsum) @ nl @ name @ ''_count '' @ Itoa (sint dcount) @ nl"

definition render :: "metrics \<Rightarrow> string" where
  "render m =
     writeCounter ''policy_evaluate_total'' (EvaluateTotal m) @
     writeHistogram ''policy_evaluate_duration_seconds'' (EvaluateDurationSum m) (EvaluateDurationCount m) @
     writeCounter ''policy_allow_total'' (AllowTotal m) @
     writeCounter ''policy_deny_total'' (DenyTotal m) @
     writeCounter ''policy_manual_review_total'' (ManualReviewTotal m) @
     writeCounter ''policy_velocity_rollbacks_total'' (VelocityRollbacks m) @
     writeCounter ''policy_hot_reload_swaps_total'' (HotReloadSwaps m) @
     writeCounter ''policy_audit_drops_total'' (AuditDrops m) @
     writeGauge ''policy_review_pending'' (ReviewPending m)"

section \<open>Lines of the rendering\<close>

lemma Itoa_no_newline: "CHR 0x0A \<notin> set (Itoa n)"
proof -
  have nd: "\<not> is_digit (CHR 0x0A)" by (simp add: is_digit_def)
  have "CHR 0x0A \<notin> set (dec_digits k)" if "0 \<le> k" for k
  proof
    assume "CHR 0x0A \<in> set (dec_digits k)"
    with dec_digits_digits [OF that] have "is_digit (CHR 0x0A)" by (simp only: list_all_iff)
    with nd show False ..
  qed
  from this [of n] this [of "- n"] show ?thesis by (simp add: Itoa_def)
qed

lemma first_line_inject:
  assumes "x @ CHR 0x0A # s = y @ CHR 0x0A # t" and "CHR 0x0A \<notin> set x" and "CHR 0x0A \<notin> set y"
  shows "x = y \<and> s = t"
proof -
  have "takeWhile (\<lambda>c. c \<noteq> CHR 0x0A) (x @ CHR 0x0A # s) = x" "takeWhile (\<lambda>c. c \<noteq> CHR 0x0A) (y @ CHR 0x0A # t) = y"
    using assms(2,3) by (auto simp: takeWhile_tail)
  with assms(1) show ?thesis by auto
qed

lemma Itoa_inject: "Itoa (sint (v :: i64)) = Itoa (sint w) \<longleftrightarrow> v = w"
proof
  assume "Itoa (sint v) = Itoa (sint w)"
  moreover have "Atoi (Itoa (sint v)) = (sint v, None)" "Atoi (Itoa (sint w)) = (sint w, None)"
    by (rule Atoi_Itoa; use sint_range_size [of v] sint_range_size [of w] in \<open>simp add: word_size\<close>)+
  ultimately show "v = w" by (metis fst_conv signed_word_eqI)
qed simp

lemma value_line_inject:
  assumes "Itoa (sint (v :: i64)) @ nl @ s = Itoa (sint w) @ nl @ t"
  shows "v = w \<and> s = t"
  using first_line_inject [of "Itoa (sint v)" s "Itoa (sint w)" t] assms Itoa_no_newline Itoa_inject
  by (auto simp: nl_def)

lemma writeCounter_inject:
  "writeCounter name v @ s = writeCounter name w @ t \<Longrightarrow> v = w \<and> s = t"
  using value_line_inject [of v s w t] by (simp add: writeCounter_def)

lemma writeHistogram_inject:
  assumes "writeHistogram name v c @ s = writeHistogram name w d @ t"
  shows "v = w \<and> c = d \<and> s = t"
proof -
  let ?k = "\<lambda>c s. name @ ''_count '' @ Itoa (sint c) @ nl @ s"
  have "Itoa (sint v) @ nl @ ?k c s = Itoa (sint w) @ nl @ ?k d t"
    using assms by (simp add: writeHistogram_def)
  from value_line_inject [OF this] show ?thesis using value_line_inject [of c s d t] by simp
qed

text \<open>
  The rendering loses nothing: two metric states with the same Prometheus text are equal, so every
  counter can be read back from it exactly, at the full width of 64 bits.
\<close>
theorem render_inject: "render (m :: metrics) = render m' \<longleftrightarrow> m = m'"
proof
  assume eq: "render m = render m'"
  let ?h = "writeHistogram ''policy_evaluate_duration_seconds''"
  from writeCounter_inject [OF eq [unfolded render_def]] have e: "EvaluateTotal m = EvaluateTotal m'" and r1:
    "?h (EvaluateDurationSum m) (EvaluateDurationCount m) @ writeCounter ''policy_allow_total'' (AllowTotal m) @
       writeCounter ''policy_deny_total'' (DenyTotal m) @ writeCounter ''policy_manual_review_total'' (ManualReviewTotal m) @
       writeCounter ''policy_velocity_rollbacks_total'' (VelocityRollbacks m) @
       writeCounter ''policy_hot_reload_swaps_total'' (HotReloadSwaps m) @
       writeCounter ''policy_audit_drops_total'' (AuditDrops m) @ writeGauge ''policy_review_pending'' (ReviewPending m)
     = ?h (EvaluateDurationSum m') (EvaluateDurationCount m') @ writeCounter ''policy_allow_total'' (AllowTotal m') @
       writeCounter ''policy_deny_total'' (DenyTotal m') @ writeCounter ''policy_manual_review_total'' (ManualReviewTotal m') @
       writeCounter ''policy_velocity_rollbacks_total'' (VelocityRollbacks m') @
       writeCounter ''policy_hot_reload_swaps_total'' (HotReloadSwaps m') @
       writeCounter ''policy_audit_drops_total'' (AuditDrops m') @ writeGauge ''policy_review_pending'' (ReviewPending m')"
    by blast+
  note r2 = writeHistogram_inject [OF r1]
  note r3 = writeCounter_inject [OF r2 [THEN conjunct2, THEN conjunct2]]
  note r4 = writeCounter_inject [OF r3 [THEN conjunct2]]
  note r5 = writeCounter_inject [OF r4 [THEN conjunct2]]
  note r6 = writeCounter_inject [OF r5 [THEN conjunct2]]
  note r7 = writeCounter_inject [OF r6 [THEN conjunct2]]
  note r8 = writeCounter_inject [OF r7 [THEN conjunct2]]
  have "ReviewPending m = ReviewPending m'"
    using r8 value_line_inject [of "ReviewPending m" "[]" "ReviewPending m'" "[]"] by (simp add: writeGauge_def)
  with e r2 r3 r4 r5 r6 r7 r8 show "m = m'" by (simp add: metrics.equality)
qed simp

end
