(* ===== verification/Evaluate.thy ===== *)
theory Evaluate
  imports Caps Velocity Whitelist Review Engine Audit_Log Metrics
begin

text \<open>
  Package \<^verbatim>\<open>internal/evaluate\<close>: the synchronous evaluation path that composes source authentication, the
  whitelist, the velocity counter, the caps, the decision engine, the audit service, the review queue and the
  metrics.

  The components are reached through the same interfaces as in the code, so the path is modelled over any
  velocity counter, whitelist store, review store and audit service. The engine is read several times in one
  call (once to decide and once for every version that is reported) and may be swapped between the reads, so
  its version is a function of the number of the read. The clock readings and the fresh decision id of a call
  are arguments; a nil dereference is the outcome \<open>Panic\<close>.
\<close>

section \<open>Requests and responses\<close>

record eval_request =
  rq_UserID :: string
  rq_Amount :: string
  rq_Currency :: string
  rq_Asset :: string
  rq_Rail :: string
  rq_DestAddress :: string
  rq_DestChain :: string
  rq_KYTVerdict :: string
  rq_FraudScore :: f64
  rq_KYCStatus :: string
  rq_UserTier :: string
  rq_Session2FA :: bool
  rq_FXRateToUSD :: f64
  rq_SessionValid :: bool

record applied_rule =
  ar_ID :: string
  ar_Version :: string

record eval_response =
  rs_Decision :: string
  rs_Reasons :: "string list"
  rs_AppliedRules :: "applied_rule list"
  rs_PolicyVersion :: string
  rs_Score :: f64
  rs_DecisionID :: string

definition zero_response :: eval_response where
  "zero_response = \<lparr>rs_Decision = [], rs_Reasons = [], rs_AppliedRules = [], rs_PolicyVersion = [], rs_Score = f64_zero, rs_DecisionID = []\<rparr>"

datatype eval_outcome = Panic | Return eval_response "gerror option"

section \<open>Validation\<close>

definition validate :: "eval_request \<Rightarrow> gerror option" where
  "validate req =
     (if TrimSpace (rq_UserID req) = [] then Some (ErrorNew ''user_id is required'')
      else if TrimSpace (rq_Amount req) = [] then Some (ErrorNew ''amount is required'')
      else if snd (ParseFloat (rq_Amount req)) \<noteq> None then Some (ErrorNew ''amount must be a number'')
      else if TrimSpace (rq_Currency req) = [] then Some (ErrorNew ''currency is required'')
      else if TrimSpace (rq_DestAddress req) = [] then Some (ErrorNew ''dest_address is required'')
      else None)"

definition parseFloat :: "string \<Rightarrow> f64" where
  "parseFloat s = fst (ParseFloat s)"

definition toAuditReq :: "eval_request \<Rightarrow> audit_request" where
  "toAuditReq req =
     \<lparr>aq_UserID = rq_UserID req, aq_Amount = rq_Amount req, aq_Currency = rq_Currency req, aq_Asset = rq_Asset req,
      aq_Rail = rq_Rail req, aq_DestAddress = rq_DestAddress req, aq_DestChain = rq_DestChain req,
      aq_KYTVerdict = rq_KYTVerdict req, aq_FraudScore = rq_FraudScore req, aq_KYCStatus = rq_KYCStatus req\<rparr>"

section \<open>The service\<close>

record engine_iface =
  ei_Evaluate :: "engine_input \<Rightarrow> engine_result result"
  ei_Version :: "nat \<Rightarrow> string result"

text \<open>
  The components of a service; \<open>sv_impl\<close> is the machine's conversion of out-of-range floats to integers,
  \<open>sv_getenv\<close> the environment.
\<close>

record ('v, 'w, 'r, 'sk, 'pk, 's, 'k) eval_service =
  sv_engine :: engine_iface
  sv_velocity :: "'v counter_ops option"
  sv_caps :: "caps_config option"
  sv_whitelist :: "'w wl_store_ops"
  sv_review :: "'r review_store_ops option"
  sv_audit :: "('sk, 'pk, 's, 'k) audit_deps option"
  sv_sessionValidDefault :: bool
  sv_getenv :: env
  sv_impl :: "f64 \<Rightarrow> i64"

record ('v, 'w, 'r, 's, 'k) eval_state =
  ev_velocity :: 'v
  ev_whitelist :: 'w
  ev_review :: 'r
  ev_audit :: "('s, 'k) audit_service"
  ev_metrics :: metrics

record eval_call =
  ec_id :: string
  ec_increment :: gotime
  ec_rollback :: gotime
  ec_emit :: gotime
  ec_park :: gotime
  ec_elapsed :: i64

definition SetSessionValidDefault ::
  "bool \<Rightarrow> ('v, 'w, 'r, 'sk, 'pk, 's, 'k) eval_service \<Rightarrow> ('v, 'w, 'r, 'sk, 'pk, 's, 'k) eval_service" where
  "SetSessionValidDefault v sv = sv\<lparr>sv_sessionValidDefault := v\<rparr>"

text \<open>The environment and the float conversion of the platform are fields, too; the metrics, clock and identifiers are part of the state and of the calls.\<close>

definition eval_NewService where
  "eval_NewService eng vel capsCfg wl revw aud getenv impl =
     \<lparr>sv_engine = eng, sv_velocity = vel, sv_caps = capsCfg, sv_whitelist = wl, sv_review = revw, sv_audit = aud,
      sv_sessionValidDefault = False, sv_getenv = getenv, sv_impl = impl\<rparr>"

definition count_decision :: "string \<Rightarrow> metrics \<Rightarrow> metrics" where
  "count_decision decision m =
     (if decision = ''allow'' then m\<lparr>AllowTotal := AllowTotal m + 1\<rparr>
      else if decision = ''deny'' then m\<lparr>DenyTotal := DenyTotal m + 1\<rparr>
      else if decision = ''manual_review'' then m\<lparr>ManualReviewTotal := ManualReviewTotal m + 1\<rparr>
      else m)"

definition park_review ::
  "('v, 'w, 'r, 'sk, 'pk, 's, 'k) eval_service \<Rightarrow> eval_call \<Rightarrow> string \<Rightarrow> ('v, 'w, 'r, 's, 'k) eval_state \<Rightarrow> ('v, 'w, 'r, 's, 'k) eval_state" where
  "park_review sv ec decision st =
     (if decision = ''manual_review''
      then (case sv_review sv of
              None \<Rightarrow> st
            | Some ops \<Rightarrow>
                (case rv_Park ops (ec_park ec) (ec_id ec) [] (ev_review st) of
                   ((_, None), r) \<Rightarrow> st\<lparr>ev_review := r, ev_metrics := (ev_metrics st)\<lparr>ReviewPending := ReviewPending (ev_metrics st) + 1\<rparr>\<rparr>
                 | ((_, Some err), r) \<Rightarrow> st\<lparr>ev_review := r\<rparr>))
      else st)"

definition decision_record_of :: "('sk, 'pk) crypto \<Rightarrow> eval_response \<Rightarrow> audit_request \<Rightarrow> decision_record" where
  "decision_record_of cr resp auditReq =
     \<lparr>dr_DecisionID = rs_DecisionID resp, dr_PolicyVersion = rs_PolicyVersion resp, dr_RequestHash = RequestHash cr auditReq,
      dr_Decision = rs_Decision resp, dr_Reasons = rs_Reasons resp, dr_AppliedRules = map ar_ID (rs_AppliedRules resp),
      dr_Score = rs_Score resp, dr_CreatedAt = 0, dr_Signature = []\<rparr>"

definition finalize ::
  "('v, 'w, 'r, 'sk, 'pk, 's, 'k) eval_service \<Rightarrow> eval_call \<Rightarrow> string result \<Rightarrow> string \<Rightarrow> string list \<Rightarrow> applied_rule list \<Rightarrow> f64
     \<Rightarrow> audit_request \<Rightarrow> ('v, 'w, 'r, 's, 'k) eval_state \<Rightarrow> eval_outcome \<times> ('v, 'w, 'r, 's, 'k) eval_state" where
  "finalize sv ec version decision reasons rules score auditReq st =
     (case version of
        Inl panic \<Rightarrow> (Panic, st)
      | Inr policyVersion \<Rightarrow>
          let st1 = st\<lparr>ev_metrics := count_decision decision (ev_metrics st)\<rparr>;
              resp = \<lparr>rs_Decision = decision, rs_Reasons = reasons, rs_AppliedRules = rules, rs_PolicyVersion = policyVersion,
                      rs_Score = score, rs_DecisionID = ec_id ec\<rparr>
          in (case sv_audit sv of
                None \<Rightarrow> (Return resp None, park_review sv ec decision st1)
              | Some d \<Rightarrow>
                  (case audit_Emit d (ec_emit ec) (decision_record_of (ad_crypto d) resp auditReq) (ev_audit st1) of
                     (e, a) \<Rightarrow>
                       let st2 = st1\<lparr>ev_audit := a\<rparr>
                       in (case e of
                             None \<Rightarrow> (Return resp None, park_review sv ec decision st2)
                           | Some err \<Rightarrow>
                               if \<not> errors_Is err ErrDropped then (Return resp (Some (Errorf ''audit emit: '' err)), st2)
                               else (Return resp None, park_review sv ec decision st2)))))"

text \<open>The rules of an engine result, each with the version read at that moment.\<close>

fun version_rules :: "(nat \<Rightarrow> string result) \<Rightarrow> nat \<Rightarrow> string list \<Rightarrow> applied_rule list result" where
  "version_rules ver n [] = Inr []"
| "version_rules ver n (r # rs) =
     (case ver n of
        Inl panic \<Rightarrow> Inl panic
      | Inr v \<Rightarrow> (case version_rules ver (Suc n) rs of Inl panic \<Rightarrow> Inl panic | Inr ars \<Rightarrow> Inr (\<lparr>ar_ID = r, ar_Version = v\<rparr> # ars)))"

text \<open>Step 5: the engine decides.\<close>

definition engine_stage ::
  "('v, 'w, 'r, 'sk, 'pk, 's, 'k) eval_service \<Rightarrow> eval_call \<Rightarrow> eval_request \<Rightarrow> f64 \<Rightarrow> bool \<Rightarrow> bool \<Rightarrow> string list \<Rightarrow> applied_rule list
     \<Rightarrow> ('v, 'w, 'r, 's, 'k) eval_state \<Rightarrow> eval_outcome \<times> ('v, 'w, 'r, 's, 'k) eval_state" where
  "engine_stage sv ec req amountUSD requires2FA whitelisted reasons rules st =
     (let engineInput = \<lparr>in_user_id = rq_UserID req, in_amount_usd = amountUSD, in_kyt_verdict = rq_KYTVerdict req,
            in_fraud_score = rq_FraudScore req, in_kyc_status = rq_KYCStatus req, in_dest_address = rq_DestAddress req,
            in_whitelisted = whitelisted, in_requires_2fa = requires2FA, in_session_2fa_passed = rq_Session2FA req\<rparr>
      in case ei_Evaluate (sv_engine sv) engineInput of
           Inl NilDereference \<Rightarrow> (Panic, st)
         | Inl err \<Rightarrow> finalize sv ec (ei_Version (sv_engine sv) 0) ''manual_review'' (reasons @ [''engine_error'']) rules (f64_lit (1/2)) (toAuditReq req) st
         | Inr engRes \<Rightarrow>
             (case version_rules (ei_Version (sv_engine sv)) 0 (resAppliedRules engRes) of
                Inl panic \<Rightarrow> (Panic, st)
              | Inr ars \<Rightarrow>
                  finalize sv ec (ei_Version (sv_engine sv) (length ars)) (resDecision engRes) reasons (rules @ ars)
                    (resRiskScore engRes) (toAuditReq req) st))"

text \<open>Step 4: the per-transaction cap.\<close>

definition caps_stage ::
  "('v, 'w, 'r, 'sk, 'pk, 's, 'k) eval_service \<Rightarrow> eval_call \<Rightarrow> caps_config \<Rightarrow> eval_request \<Rightarrow> tier \<Rightarrow> f64 \<Rightarrow> bool \<Rightarrow> bool \<Rightarrow> string list
     \<Rightarrow> ('v, 'w, 'r, 's, 'k) eval_state \<Rightarrow> eval_outcome \<times> ('v, 'w, 'r, 's, 'k) eval_state" where
  "caps_stage sv ec caps req tier amountUSD requires2FA whitelisted reasons st =
     (let res = caps_Evaluate caps tier (rq_Rail req) (rq_Asset req) ''tx'' amountUSD;
          rules = (case CapAppliedRule res of None \<Rightarrow> [] | Some r \<Rightarrow> [\<lparr>ar_ID = RuleID r, ar_Version = []\<rparr>])
      in if Exceeded res
         then finalize sv ec (ei_Version (sv_engine sv) 0) (CapDecision res) (reasons @ [CapReason res]) rules (f64_lit (1/2)) (toAuditReq req) st
         else if NearCap res
         then finalize sv ec (ei_Version (sv_engine sv) 0) ''manual_review'' (reasons @ [CapReason res]) rules (f64_lit (3/10)) (toAuditReq req) st
         else engine_stage sv ec req amountUSD requires2FA whitelisted reasons rules st)"

text \<open>Step 3: the daily velocity counter.\<close>

definition velocity_stage ::
  "('v, 'w, 'r, 'sk, 'pk, 's, 'k) eval_service \<Rightarrow> eval_call \<Rightarrow> caps_config \<Rightarrow> eval_request \<Rightarrow> tier \<Rightarrow> f64 \<Rightarrow> bool \<Rightarrow> bool \<Rightarrow> string list
     \<Rightarrow> ('v, 'w, 'r, 's, 'k) eval_state \<Rightarrow> eval_outcome \<times> ('v, 'w, 'r, 's, 'k) eval_state" where
  "velocity_stage sv ec caps req tier amountUSD requires2FA whitelisted reasons st =
     (case sv_velocity sv of
        None \<Rightarrow> caps_stage sv ec caps req tier amountUSD requires2FA whitelisted reasons st
      | Some ops \<Rightarrow>
          (case WindowsFromConfig (velocity_DefaultConfig (sv_getenv sv)) of
             (_, _, day) \<Rightarrow>
               (case Increment ops (rq_UserID req) day (ec_increment ec) (ev_velocity st) of
                  ((v, _), c) \<Rightarrow>
                    if sint (int64_of_f64 (sv_impl sv) (DefaultDailyCapUSD caps)) < sint v
                    then finalize sv ec (ei_Version (sv_engine sv) 0) ''deny'' (reasons @ [''velocity_daily_exceeded'']) [] (f64_lit (1/2))
                           (toAuditReq req) (st\<lparr>ev_velocity := snd (Rollback ops (rq_UserID req) day (ec_rollback ec) c)\<rparr>)
                    else caps_stage sv ec caps req tier amountUSD requires2FA whitelisted (reasons @ [''velocity_daily_ok''])
                           (st\<lparr>ev_velocity := c\<rparr>))))"

text \<open>Steps 1 and 2: source authentication and whitelist.\<close>

definition evaluate_body ::
  "('v, 'w, 'r, 'sk, 'pk, 's, 'k) eval_service \<Rightarrow> eval_call \<Rightarrow> eval_request
     \<Rightarrow> ('v, 'w, 'r, 's, 'k) eval_state \<Rightarrow> eval_outcome \<times> ('v, 'w, 'r, 's, 'k) eval_state" where
  "evaluate_body sv ec req st =
     (case sv_caps sv of
        None \<Rightarrow> (Panic, st)
      | Some caps \<Rightarrow>
          let amountUSD = FXToUSD (parseFloat (rq_Amount req)) (rq_Currency req) (rq_FXRateToUSD req);
              tier = (if rq_UserTier req = [] then Tier1 else rq_UserTier req);
              requires2FA = HighValue2FARequired caps (rq_Rail req) amountUSD;
              sessionValid = rq_SessionValid req \<or> sv_sessionValidDefault sv;
              authResult = CheckSourceAuth sessionValid requires2FA (rq_Session2FA req)
          in if \<not> AuthOK authResult
             then finalize sv ec (ei_Version (sv_engine sv) 0) ''deny'' [AuthReason authResult] [] (f64_lit 1) (toAuditReq req) st
             else let whitelisted = IsWhitelisted (sv_whitelist sv) (rq_UserID req) (rq_DestChain req) (rq_DestAddress req) (ev_whitelist st)
                  in if \<not> whitelisted
                     then finalize sv ec (ei_Version (sv_engine sv) 0) ''deny'' [''dest_not_whitelisted''] [] (f64_lit (1/2)) (toAuditReq req) st
                     else velocity_stage sv ec caps req tier amountUSD requires2FA whitelisted [''whitelisted''] st)"

text \<open>The deferred function runs on every exit after validation, panics included.\<close>

definition observe :: "eval_call \<Rightarrow> metrics \<Rightarrow> metrics" where
  "observe ec m = (let m' = ObserveEvaluateDuration (ec_elapsed ec) m in m'\<lparr>EvaluateTotal := EvaluateTotal m' + 1\<rparr>)"

definition eval_Evaluate ::
  "('v, 'w, 'r, 'sk, 'pk, 's, 'k) eval_service \<Rightarrow> eval_call \<Rightarrow> eval_request
     \<Rightarrow> ('v, 'w, 'r, 's, 'k) eval_state \<Rightarrow> eval_outcome \<times> ('v, 'w, 'r, 's, 'k) eval_state" where
  "eval_Evaluate sv ec req st =
     (case validate req of
        Some err \<Rightarrow> (Return zero_response (Some err), st)
      | None \<Rightarrow>
          (case evaluate_body sv ec req st of
             (out, st') \<Rightarrow> (out, st'\<lparr>ev_metrics := observe ec (ev_metrics st')\<rparr>)))"

section \<open>The verdict of a request\<close>

text \<open>
  The specification of the path: a verdict is computed from the request and the components without touching
  any state, and the only state that is changed before the verdict is acted on is the velocity counter.
\<close>

record verdict =
  vd_decision :: string
  vd_reasons :: "string list"
  vd_rules :: "applied_rule list"
  vd_score :: f64
  vd_read :: nat

definition req_amount :: "eval_request \<Rightarrow> f64" where
  "req_amount req = FXToUSD (parseFloat (rq_Amount req)) (rq_Currency req) (rq_FXRateToUSD req)"

definition req_tier :: "eval_request \<Rightarrow> tier" where
  "req_tier req = (if rq_UserTier req = [] then Tier1 else rq_UserTier req)"

definition req_cap :: "caps_config \<Rightarrow> eval_request \<Rightarrow> cap_result" where
  "req_cap caps req = caps_Evaluate caps (req_tier req) (rq_Rail req) (rq_Asset req) ''tx'' (req_amount req)"

definition req_auth :: "('v, 'w, 'r, 'sk, 'pk, 's, 'k) eval_service \<Rightarrow> caps_config \<Rightarrow> eval_request \<Rightarrow> source_auth_result" where
  "req_auth sv caps req =
     CheckSourceAuth (rq_SessionValid req \<or> sv_sessionValidDefault sv) (HighValue2FARequired caps (rq_Rail req) (req_amount req))
       (rq_Session2FA req)"

definition req_whitelisted ::
  "('v, 'w, 'r, 'sk, 'pk, 's, 'k) eval_service \<Rightarrow> eval_request \<Rightarrow> ('v, 'w, 'r, 's, 'k) eval_state \<Rightarrow> bool" where
  "req_whitelisted sv req st = IsWhitelisted (sv_whitelist sv) (rq_UserID req) (rq_DestChain req) (rq_DestAddress req) (ev_whitelist st)"

definition day_window :: "('v, 'w, 'r, 'sk, 'pk, 's, 'k) eval_service \<Rightarrow> window" where
  "day_window sv = snd (snd (WindowsFromConfig (velocity_DefaultConfig (sv_getenv sv))))"

definition velocity_exceeded ::
  "('v, 'w, 'r, 'sk, 'pk, 's, 'k) eval_service \<Rightarrow> eval_call \<Rightarrow> caps_config \<Rightarrow> eval_request \<Rightarrow> ('v, 'w, 'r, 's, 'k) eval_state \<Rightarrow> bool" where
  "velocity_exceeded sv ec caps req st =
     (case sv_velocity sv of
        None \<Rightarrow> False
      | Some ops \<Rightarrow>
          sint (int64_of_f64 (sv_impl sv) (DefaultDailyCapUSD caps))
            < sint (fst (fst (Increment ops (rq_UserID req) (day_window sv) (ec_increment ec) (ev_velocity st)))))"

definition velocity_after ::
  "('v, 'w, 'r, 'sk, 'pk, 's, 'k) eval_service \<Rightarrow> eval_call \<Rightarrow> caps_config \<Rightarrow> eval_request \<Rightarrow> ('v, 'w, 'r, 's, 'k) eval_state \<Rightarrow> 'v" where
  "velocity_after sv ec caps req st =
     (if AuthOK (req_auth sv caps req) \<and> req_whitelisted sv req st
      then (case sv_velocity sv of
              None \<Rightarrow> ev_velocity st
            | Some ops \<Rightarrow>
                let c = snd (Increment ops (rq_UserID req) (day_window sv) (ec_increment ec) (ev_velocity st))
                in if velocity_exceeded sv ec caps req st
                   then snd (Rollback ops (rq_UserID req) (day_window sv) (ec_rollback ec) c) else c)
      else ev_velocity st)"

definition req_input :: "caps_config \<Rightarrow> eval_request \<Rightarrow> engine_input" where
  "req_input caps req =
     \<lparr>in_user_id = rq_UserID req, in_amount_usd = req_amount req, in_kyt_verdict = rq_KYTVerdict req,
      in_fraud_score = rq_FraudScore req, in_kyc_status = rq_KYCStatus req, in_dest_address = rq_DestAddress req,
      in_whitelisted = True, in_requires_2fa = HighValue2FARequired caps (rq_Rail req) (req_amount req),
      in_session_2fa_passed = rq_Session2FA req\<rparr>"

definition cap_rules :: "cap_result \<Rightarrow> applied_rule list" where
  "cap_rules res = (case CapAppliedRule res of None \<Rightarrow> [] | Some r \<Rightarrow> [\<lparr>ar_ID = RuleID r, ar_Version = []\<rparr>])"

definition passed_reasons :: "('v, 'w, 'r, 'sk, 'pk, 's, 'k) eval_service \<Rightarrow> string list" where
  "passed_reasons sv = ''whitelisted'' # (if sv_velocity sv = None then [] else [''velocity_daily_ok''])"

definition engine_verdict :: "engine_iface \<Rightarrow> engine_input \<Rightarrow> string list \<Rightarrow> applied_rule list \<Rightarrow> verdict option" where
  "engine_verdict ei input reasons rules =
     (case ei_Evaluate ei input of
        Inl err \<Rightarrow>
          if err = NilDereference then None
          else Some \<lparr>vd_decision = ''manual_review'', vd_reasons = reasons @ [''engine_error''], vd_rules = rules, vd_score = f64_lit (1/2), vd_read = 0\<rparr>
      | Inr r \<Rightarrow>
          (case version_rules (ei_Version ei) 0 (resAppliedRules r) of
             Inl panic \<Rightarrow> None
           | Inr ars \<Rightarrow> Some \<lparr>vd_decision = resDecision r, vd_reasons = reasons, vd_rules = rules @ ars, vd_score = resRiskScore r, vd_read = length ars\<rparr>))"

definition eval_verdict ::
  "('v, 'w, 'r, 'sk, 'pk, 's, 'k) eval_service \<Rightarrow> eval_call \<Rightarrow> caps_config \<Rightarrow> eval_request \<Rightarrow> ('v, 'w, 'r, 's, 'k) eval_state \<Rightarrow> verdict option" where
  "eval_verdict sv ec caps req st =
     (let cap = req_cap caps req in
      if \<not> AuthOK (req_auth sv caps req)
      then Some \<lparr>vd_decision = ''deny'', vd_reasons = [AuthReason (req_auth sv caps req)], vd_rules = [], vd_score = f64_lit 1, vd_read = 0\<rparr>
      else if \<not> req_whitelisted sv req st
      then Some \<lparr>vd_decision = ''deny'', vd_reasons = [''dest_not_whitelisted''], vd_rules = [], vd_score = f64_lit (1/2), vd_read = 0\<rparr>
      else if velocity_exceeded sv ec caps req st
      then Some \<lparr>vd_decision = ''deny'', vd_reasons = [''whitelisted'', ''velocity_daily_exceeded''], vd_rules = [], vd_score = f64_lit (1/2), vd_read = 0\<rparr>
      else if Exceeded cap
      then Some \<lparr>vd_decision = CapDecision cap, vd_reasons = passed_reasons sv @ [CapReason cap], vd_rules = cap_rules cap, vd_score = f64_lit (1/2), vd_read = 0\<rparr>
      else if NearCap cap
      then Some \<lparr>vd_decision = ''manual_review'', vd_reasons = passed_reasons sv @ [CapReason cap], vd_rules = cap_rules cap, vd_score = f64_lit (3/10), vd_read = 0\<rparr>
      else engine_verdict (sv_engine sv) (req_input caps req) (passed_reasons sv) (cap_rules cap))"

definition act_on ::
  "('v, 'w, 'r, 'sk, 'pk, 's, 'k) eval_service \<Rightarrow> eval_call \<Rightarrow> eval_request \<Rightarrow> verdict option
     \<Rightarrow> ('v, 'w, 'r, 's, 'k) eval_state \<Rightarrow> eval_outcome \<times> ('v, 'w, 'r, 's, 'k) eval_state" where
  "act_on sv ec req v st =
     (case v of
        None \<Rightarrow> (Panic, st)
      | Some v \<Rightarrow>
          finalize sv ec (ei_Version (sv_engine sv) (vd_read v)) (vd_decision v) (vd_reasons v) (vd_rules v) (vd_score v) (toAuditReq req) st)"

lemmas verdict_defs = eval_verdict_def engine_verdict_def velocity_exceeded_def velocity_after_def req_auth_def
  req_cap_def req_amount_def req_tier_def req_whitelisted_def req_input_def cap_rules_def passed_reasons_def day_window_def

lemma engine_stage_verdict:
  assumes "w"
  shows "engine_stage sv ec req (req_amount req) (HighValue2FARequired caps (rq_Rail req) (req_amount req)) w reasons rules st
     = act_on sv ec req (engine_verdict (sv_engine sv) (req_input caps req) reasons rules) st"
  using assms
  by (auto simp: engine_stage_def engine_verdict_def act_on_def req_input_def Let_def split: sum.splits gerror.splits)

lemma caps_stage_verdict:
  assumes "w"
  shows "caps_stage sv ec caps req (req_tier req) (req_amount req) (HighValue2FARequired caps (rq_Rail req) (req_amount req)) w reasons st
     = act_on sv ec req
         (let cap = req_cap caps req in
          if Exceeded cap
          then Some \<lparr>vd_decision = CapDecision cap, vd_reasons = reasons @ [CapReason cap], vd_rules = cap_rules cap, vd_score = f64_lit (1/2), vd_read = 0\<rparr>
          else if NearCap cap
          then Some \<lparr>vd_decision = ''manual_review'', vd_reasons = reasons @ [CapReason cap], vd_rules = cap_rules cap, vd_score = f64_lit (3/10), vd_read = 0\<rparr>
          else engine_verdict (sv_engine sv) (req_input caps req) reasons (cap_rules cap)) st"
  unfolding caps_stage_def Let_def engine_stage_verdict [OF assms]
  by (simp add: act_on_def req_cap_def cap_rules_def)

lemma evaluate_body_verdict:
  assumes "sv_caps sv = Some caps"
  shows "evaluate_body sv ec req st
     = act_on sv ec req (eval_verdict sv ec caps req st) (st\<lparr>ev_velocity := velocity_after sv ec caps req st\<rparr>)"
proof -
  have body: "evaluate_body sv ec req st =
     (if \<not> AuthOK (req_auth sv caps req)
      then finalize sv ec (ei_Version (sv_engine sv) 0) ''deny'' [AuthReason (req_auth sv caps req)] [] (f64_lit 1) (toAuditReq req) st
      else if \<not> req_whitelisted sv req st
      then finalize sv ec (ei_Version (sv_engine sv) 0) ''deny'' [''dest_not_whitelisted''] [] (f64_lit (1/2)) (toAuditReq req) st
      else velocity_stage sv ec caps req (req_tier req) (req_amount req) (HighValue2FARequired caps (rq_Rail req) (req_amount req)) True [''whitelisted''] st)"
    using assms
    by (simp only: evaluate_body_def option.case Let_def req_auth_def [symmetric] req_amount_def [symmetric] req_tier_def [symmetric]
        req_whitelisted_def [symmetric]) (simp cong: if_cong)
  consider (auth) "\<not> AuthOK (req_auth sv caps req)" | (wl) "AuthOK (req_auth sv caps req)" "\<not> req_whitelisted sv req st"
    | (vel) "AuthOK (req_auth sv caps req)" "req_whitelisted sv req st" by blast
  then show ?thesis
  proof cases
    case auth
    then show ?thesis by (simp add: body eval_verdict_def act_on_def velocity_after_def)
  next
    case wl
    then show ?thesis by (simp add: body eval_verdict_def act_on_def velocity_after_def)
  next
    case vel
    show ?thesis
    proof (cases "sv_velocity sv")
      case None
      with vel have nv: "velocity_after sv ec caps req st = ev_velocity st" "\<not> velocity_exceeded sv ec caps req st"
        by (simp_all add: velocity_after_def velocity_exceeded_def)
      have "evaluate_body sv ec req st =
        caps_stage sv ec caps req (req_tier req) (req_amount req) (HighValue2FARequired caps (rq_Rail req) (req_amount req)) True [''whitelisted''] st"
        using vel None by (simp add: body velocity_stage_def)
      with caps_stage_verdict [of True sv ec caps req "[''whitelisted'']" st] show ?thesis
        using vel None nv by (simp add: eval_verdict_def passed_reasons_def Let_def)
    next
      case (Some ops)
      obtain v e c where inc: "Increment ops (rq_UserID req) (day_window sv) (ec_increment ec) (ev_velocity st) = ((v, e), c)"
        by (metis prod.exhaust)
      obtain m h where win: "WindowsFromConfig (velocity_DefaultConfig (sv_getenv sv)) = (m, h, day_window sv)"
        by (metis day_window_def prod.collapse)
      show ?thesis
        using caps_stage_verdict [of True sv ec caps req "[''whitelisted'', ''velocity_daily_ok'']" "st\<lparr>ev_velocity := c\<rparr>"]
        using vel Some inc
        by (simp add: body velocity_stage_def win eval_verdict_def velocity_after_def velocity_exceeded_def passed_reasons_def act_on_def Let_def)
    qed
  qed
qed

section \<open>Acting on a verdict\<close>

lemma finalize_Return:
  assumes "finalize sv ec ver dec reasons rules score aq st = (Return resp e, st')"
  shows "rs_Decision resp = dec \<and> rs_Reasons resp = reasons \<and> rs_AppliedRules resp = rules \<and> ver = Inr (rs_PolicyVersion resp)
     \<and> rs_Score resp = score \<and> rs_DecisionID resp = ec_id ec"
  using assms unfolding finalize_def by (auto simp: Let_def split: sum.splits option.splits prod.splits if_splits)

lemma finalize_Panic: "fst (finalize sv ec ver dec reasons rules score aq st) = Panic \<longleftrightarrow> (\<exists>p. ver = Inl p)"
  unfolding finalize_def by (auto simp: Let_def split: sum.splits option.splits prod.splits)

lemma eval_Evaluate_Return:
  assumes "eval_Evaluate sv ec req st = (Return resp e, st')" and "validate req = None"
  obtains caps v st1 where "sv_caps sv = Some caps" and "eval_verdict sv ec caps req st = Some v"
    and "finalize sv ec (ei_Version (sv_engine sv) (vd_read v)) (vd_decision v) (vd_reasons v) (vd_rules v) (vd_score v) (toAuditReq req)
           (st\<lparr>ev_velocity := velocity_after sv ec caps req st\<rparr>) = (Return resp e, st1)"
    and "st' = st1\<lparr>ev_metrics := observe ec (ev_metrics st1)\<rparr>"
proof -
  obtain st1 where body: "evaluate_body sv ec req st = (Return resp e, st1)" and st': "st' = st1\<lparr>ev_metrics := observe ec (ev_metrics st1)\<rparr>"
    using assms by (auto simp: eval_Evaluate_def split: prod.splits)
  obtain caps where caps: "sv_caps sv = Some caps" using body by (auto simp: evaluate_body_def split: option.splits)
  show ?thesis
  proof (cases "eval_verdict sv ec caps req st")
    case None
    with body evaluate_body_verdict [OF caps, of ec req st] show ?thesis by (simp add: act_on_def)
  next
    case (Some v)
    with body evaluate_body_verdict [OF caps, of ec req st] that [OF caps Some _ st'] show ?thesis by (simp add: act_on_def)
  qed
qed

lemma eval_Evaluate_invalid:
  "eval_Evaluate sv ec req st = (Return resp e, st') \<Longrightarrow> validate req \<noteq> None \<Longrightarrow> resp = zero_response \<and> e = validate req \<and> st' = st"
  by (auto simp: eval_Evaluate_def)

lemma cap_decision: "Exceeded (req_cap caps req) \<Longrightarrow> CapDecision (req_cap caps req) \<in> {''deny'', ''manual_review''}"
  by (auto simp: req_cap_def caps_Evaluate_def Let_def split: if_splits option.splits)

lemma verdict_decision:
  assumes "eval_verdict sv ec caps req st = Some v"
  shows "vd_decision v \<in> {''deny'', ''manual_review''}
     \<or> (AuthOK (req_auth sv caps req) \<and> req_whitelisted sv req st \<and> \<not> velocity_exceeded sv ec caps req st
        \<and> \<not> Exceeded (req_cap caps req) \<and> \<not> NearCap (req_cap caps req)
        \<and> (\<exists>r. ei_Evaluate (sv_engine sv) (req_input caps req) = Inr r \<and> vd_decision v = resDecision r))"
  using assms cap_decision [of caps req]
  by (auto simp: eval_verdict_def engine_verdict_def Let_def split: if_splits sum.splits)

text \<open>
  C6: The five-stage path computes a verdict that depends on no state but the whitelist and the velocity
  counter, changes nothing but the velocity counter on the way, and then acts on the verdict exactly once.
\<close>
theorem evaluate_refines_verdict:
  assumes "validate req = None" and "sv_caps sv = Some caps"
  shows "eval_Evaluate sv ec req st =
     (case act_on sv ec req (eval_verdict sv ec caps req st) (st\<lparr>ev_velocity := velocity_after sv ec caps req st\<rparr>) of
        (out, st') \<Rightarrow> (out, st'\<lparr>ev_metrics := observe ec (ev_metrics st')\<rparr>))"
  using assms by (simp add: eval_Evaluate_def evaluate_body_verdict)

lemma allow_checks:
  assumes "eval_Evaluate sv ec req st = (Return resp e, st')" and "rs_Decision resp = ''allow''"
  shows "validate req = None \<and> (\<exists>caps. sv_caps sv = Some caps
     \<and> (rq_SessionValid req \<or> sv_sessionValidDefault sv)
     \<and> (HighValue2FARequired caps (rq_Rail req) (req_amount req) \<longrightarrow> rq_Session2FA req)
     \<and> IsWhitelisted (sv_whitelist sv) (rq_UserID req) (rq_DestChain req) (rq_DestAddress req) (ev_whitelist st)
     \<and> \<not> velocity_exceeded sv ec caps req st
     \<and> \<not> Exceeded (req_cap caps req) \<and> \<not> NearCap (req_cap caps req)
     \<and> (\<exists>r. ei_Evaluate (sv_engine sv) (req_input caps req) = Inr r \<and> resDecision r = ''allow''))"
proof -
  have val: "validate req = None"
    using eval_Evaluate_invalid [OF assms(1)] assms(2) by (cases "validate req") (auto simp: zero_response_def)
  from eval_Evaluate_Return [OF assms(1) val] obtain caps v st1 where caps: "sv_caps sv = Some caps"
    and v: "eval_verdict sv ec caps req st = Some v"
    and fin: "finalize sv ec (ei_Version (sv_engine sv) (vd_read v)) (vd_decision v) (vd_reasons v) (vd_rules v) (vd_score v) (toAuditReq req)
           (st\<lparr>ev_velocity := velocity_after sv ec caps req st\<rparr>) = (Return resp e, st1)" .
  from finalize_Return [OF fin] assms(2) have dec: "vd_decision v = ''allow''" by simp
  from verdict_decision [OF v] dec val caps show ?thesis by (auto simp: req_auth_def req_whitelisted_def)
qed

text \<open>
  C2: A transaction is allowed only if every check passed: the request is valid, the session is valid, 2FA
  was passed where the rail and amount require it, the destination is whitelisted, the daily velocity
  counter is within its limit, the amount is neither over nor near the per-transaction cap, and the
  engine itself decided allow on exactly this request's input.
\<close>
theorem allow_requires_all_checks:
  assumes "eval_Evaluate sv ec req st = (Return resp e, st')" and "rs_Decision resp = ''allow''"
  shows "validate req = None \<and> (\<exists>caps. sv_caps sv = Some caps
     \<and> (rq_SessionValid req \<or> sv_sessionValidDefault sv)
     \<and> (HighValue2FARequired caps (rq_Rail req) (req_amount req) \<longrightarrow> rq_Session2FA req)
     \<and> IsWhitelisted (sv_whitelist sv) (rq_UserID req) (rq_DestChain req) (rq_DestAddress req) (ev_whitelist st)
     \<and> \<not> velocity_exceeded sv ec caps req st
     \<and> \<not> Exceeded (req_cap caps req) \<and> \<not> NearCap (req_cap caps req)
     \<and> (\<exists>r. ei_Evaluate (sv_engine sv) (req_input caps req) = Inr r \<and> resDecision r = ''allow''))"
  using assms by (rule allow_checks)

text \<open>
  C8: The path fails safe: if every check before the engine passes but the engine reports an error, the
  answer is manual_review with the reason engine_error, never allow.
\<close>
theorem engine_error_fails_safe:
  assumes "eval_Evaluate sv ec req st = (Return resp e, st')" and "validate req = None" and "sv_caps sv = Some caps"
    and "ei_Evaluate (sv_engine sv) (req_input caps req) = Inl err"
  shows "rs_Decision resp \<in> {''deny'', ''manual_review''}
     \<and> (AuthOK (req_auth sv caps req) \<and> req_whitelisted sv req st \<and> \<not> velocity_exceeded sv ec caps req st
        \<and> \<not> Exceeded (req_cap caps req) \<and> \<not> NearCap (req_cap caps req)
          \<longrightarrow> rs_Decision resp = ''manual_review'' \<and> rs_Reasons resp = passed_reasons sv @ [''engine_error''])"
proof -
  from eval_Evaluate_Return [OF assms(1,2)] assms(3) obtain v st1 where v: "eval_verdict sv ec caps req st = Some v"
    and fin: "finalize sv ec (ei_Version (sv_engine sv) (vd_read v)) (vd_decision v) (vd_reasons v) (vd_rules v) (vd_score v) (toAuditReq req)
           (st\<lparr>ev_velocity := velocity_after sv ec caps req st\<rparr>) = (Return resp e, st1)"
    by (metis option.inject)
  from finalize_Return [OF fin] have resp: "rs_Decision resp = vd_decision v" "rs_Reasons resp = vd_reasons v" by simp_all
  have "vd_decision v \<in> {''deny'', ''manual_review''}"
    using verdict_decision [OF v] assms(4) by auto
  with v assms(4) resp show ?thesis by (auto simp: eval_verdict_def engine_verdict_def split: if_splits)
qed

text \<open>
  C7: The path never gets stuck and does not panic: with a caps configuration, an engine with a bundle and a
  valid request there is always an answer, and its decision is one of the three whenever the engine's is.
  Without a caps configuration every valid request panics, so the nil check before step 4 is never reached.
\<close>
theorem evaluate_total:
  assumes "\<forall>n. \<exists>v. ei_Version (sv_engine sv) n = Inr v"
    and "\<forall>input. ei_Evaluate (sv_engine sv) input \<noteq> Inl NilDereference"
    and "\<forall>input r. ei_Evaluate (sv_engine sv) input = Inr r \<longrightarrow> resDecision r \<in> {''allow'', ''deny'', ''manual_review''}"
    and "validate req = None"
  shows "(case sv_caps sv of
        None \<Rightarrow> fst (eval_Evaluate sv ec req st) = Panic
      | Some caps \<Rightarrow> (\<exists>resp e. fst (eval_Evaluate sv ec req st) = Return resp e \<and> rs_Decision resp \<in> {''allow'', ''deny'', ''manual_review''}))"
proof (cases "sv_caps sv")
  case None
  with assms(4) show ?thesis by (simp add: eval_Evaluate_def evaluate_body_def)
next
  case (Some caps)
  have rules: "\<exists>ars. version_rules (ei_Version (sv_engine sv)) n rs = Inr ars" for n rs
  proof (induction rs arbitrary: n)
    case (Cons r rs)
    from assms(1) obtain v where "ei_Version (sv_engine sv) n = Inr v" by blast
    with Cons [of "Suc n"] show ?case by auto
  qed simp
  have "engine_verdict (sv_engine sv) (req_input caps req) rsn rl \<noteq> None" for rsn rl
  proof (cases "ei_Evaluate (sv_engine sv) (req_input caps req)")
    case (Inl err)
    with assms(2) have "err \<noteq> NilDereference" by auto
    with Inl show ?thesis by (simp add: engine_verdict_def)
  next
    case (Inr r)
    with rules [of 0 "resAppliedRules r"] show ?thesis by (auto simp: engine_verdict_def)
  qed
  from this [of "passed_reasons sv" "cap_rules (req_cap caps req)"]
  obtain v where v: "eval_verdict sv ec caps req st = Some v"
    by (cases "eval_verdict sv ec caps req st") (auto simp: eval_verdict_def Let_def split: if_splits)
  have dec: "vd_decision v \<in> {''allow'', ''deny'', ''manual_review''}"
    using verdict_decision [OF v]
  proof (elim disjE conjE exE)
    fix r assume "ei_Evaluate (sv_engine sv) (req_input caps req) = Inr r" and r: "vd_decision v = resDecision r"
    then have "resDecision r \<in> {''allow'', ''deny'', ''manual_review''}" using assms(3) by (metis (no_types))
    with r show ?thesis by simp
  qed auto
  let ?f = "act_on sv ec req (Some v) (st\<lparr>ev_velocity := velocity_after sv ec caps req st\<rparr>)"
  from assms(1) obtain ver where ver: "ei_Version (sv_engine sv) (vd_read v) = Inr ver" by blast
  then have "fst ?f \<noteq> Panic" by (simp add: act_on_def finalize_Panic)
  then obtain resp e where f: "fst ?f = Return resp e" by (cases "fst ?f") auto
  then obtain st1 where "?f = (Return resp e, st1)" by (cases ?f) auto
  then have "rs_Decision resp = vd_decision v" by (auto simp: act_on_def dest: finalize_Return)
  moreover have "fst (eval_Evaluate sv ec req st) = fst ?f"
    using evaluate_body_verdict [OF Some, of ec req st] assms(4) v by (simp add: eval_Evaluate_def case_prod_beta)
  ultimately show ?thesis using f dec Some by auto
qed

section \<open>Effects of an answer\<close>

lemma park_review_fields [simp]:
  "ev_audit (park_review sv ec dec st) = ev_audit st" "ev_velocity (park_review sv ec dec st) = ev_velocity st"
  "ev_whitelist (park_review sv ec dec st) = ev_whitelist st"
  "AllowTotal (ev_metrics (park_review sv ec dec st)) = AllowTotal (ev_metrics st)"
  "DenyTotal (ev_metrics (park_review sv ec dec st)) = DenyTotal (ev_metrics st)"
  "ManualReviewTotal (ev_metrics (park_review sv ec dec st)) = ManualReviewTotal (ev_metrics st)"
  "EvaluateTotal (ev_metrics (park_review sv ec dec st)) = EvaluateTotal (ev_metrics st)"
  "EvaluateDurationCount (ev_metrics (park_review sv ec dec st)) = EvaluateDurationCount (ev_metrics st)"
  by (simp_all add: park_review_def split: option.splits prod.splits)

lemma count_decision_fields [simp]:
  "EvaluateTotal (count_decision dec m) = EvaluateTotal m" "EvaluateDurationCount (count_decision dec m) = EvaluateDurationCount m"
  "ReviewPending (count_decision dec m) = ReviewPending m"
  by (simp_all add: count_decision_def)

lemma observe_fields [simp]:
  "EvaluateTotal (observe ec m) = EvaluateTotal m + 1" "EvaluateDurationCount (observe ec m) = EvaluateDurationCount m + 1"
  "AllowTotal (observe ec m) = AllowTotal m" "DenyTotal (observe ec m) = DenyTotal m"
  "ManualReviewTotal (observe ec m) = ManualReviewTotal m" "ReviewPending (observe ec m) = ReviewPending m"
  by (simp_all add: observe_def ObserveEvaluateDuration_def Let_def)

lemma finalize_fields:
  assumes "finalize sv ec ver dec reasons rules score aq st = (Return resp e, st')"
  shows "ev_velocity st' = ev_velocity st" "ev_whitelist st' = ev_whitelist st"
    "AllowTotal (ev_metrics st') = AllowTotal (count_decision dec (ev_metrics st))"
    "DenyTotal (ev_metrics st') = DenyTotal (count_decision dec (ev_metrics st))"
    "ManualReviewTotal (ev_metrics st') = ManualReviewTotal (count_decision dec (ev_metrics st))"
    "EvaluateTotal (ev_metrics st') = EvaluateTotal (ev_metrics st)"
    "EvaluateDurationCount (ev_metrics st') = EvaluateDurationCount (ev_metrics st)"
  using assms unfolding finalize_def Let_def
  by (auto split: sum.splits option.splits prod.splits if_splits)

text \<open>
  Every valid request that is answered is counted once: the evaluation and latency counters go up by
  one, and so does exactly the counter of its decision, while a request that fails validation changes no
  state at all. The counters wrap at 64 bits.
\<close>
theorem evaluate_metrics:
  assumes "eval_Evaluate sv ec req st = (Return resp e, st')"
  shows "if validate req = None
     then EvaluateTotal (ev_metrics st') = EvaluateTotal (ev_metrics st) + 1
        \<and> EvaluateDurationCount (ev_metrics st') = EvaluateDurationCount (ev_metrics st) + 1
        \<and> AllowTotal (ev_metrics st') = AllowTotal (ev_metrics st) + (if rs_Decision resp = ''allow'' then 1 else 0)
        \<and> DenyTotal (ev_metrics st') = DenyTotal (ev_metrics st) + (if rs_Decision resp = ''deny'' then 1 else 0)
        \<and> ManualReviewTotal (ev_metrics st') = ManualReviewTotal (ev_metrics st) + (if rs_Decision resp = ''manual_review'' then 1 else 0)
     else st' = st \<and> resp = zero_response \<and> e = validate req"
proof (cases "validate req")
  case (Some err)
  with eval_Evaluate_invalid [OF assms] show ?thesis by simp
next
  case None
  from eval_Evaluate_Return [OF assms None] obtain caps v st1 where
    caps: "sv_caps sv = Some caps" and v: "eval_verdict sv ec caps req st = Some v" and
    fin: "finalize sv ec (ei_Version (sv_engine sv) (vd_read v)) (vd_decision v) (vd_reasons v) (vd_rules v) (vd_score v) (toAuditReq req)
           (st\<lparr>ev_velocity := velocity_after sv ec caps req st\<rparr>) = (Return resp e, st1)"
    and st': "st' = st1\<lparr>ev_metrics := observe ec (ev_metrics st1)\<rparr>" .
  from finalize_fields [OF fin] finalize_Return [OF fin] None show ?thesis
    by (simp add: st' count_decision_def)
qed


lemma finalize_emits:
  assumes "finalize sv ec ver dec reasons rules score aq st = (Return resp None, st1)" and "sv_audit sv = Some d"
  obtains e where "audit_Emit d (ec_emit ec) (decision_record_of (ad_crypto d) resp aq) (ev_audit st) = (e, ev_audit st1)"
    and "e = None \<or> (\<exists>err. e = Some err \<and> errors_Is err ErrDropped)"
  using assms unfolding finalize_def Let_def by (auto split: sum.splits option.splits prod.splits if_splits)

lemma Emit_drop_error:
  assumes "audit_Emit d now rec s = (e, s')" and "e = None \<or> (\<exists>err. e = Some err \<and> errors_Is err ErrDropped)"
    and "ad_store d = Some au_memory_ops" and "\<forall>rec err. json_record (ad_crypto d) rec = Inl err \<longrightarrow> \<not> errors_Is err ErrDropped"
  shows "e = None \<or> e = Some ErrDropped"
proof (cases "signer_Sign (ad_crypto d) (ad_signer d) (stamped now rec)")
  case (Inl err)
  then have "\<not> errors_Is err ErrDropped"
    using assms(4) by (auto simp: signer_Sign_def canonicalJSON_def split: sum.splits)
  with Inl assms(1,2) show ?thesis by (auto simp: audit_Emit_def ErrDropped_def)
next
  case (Inr sig)
  with assms(1-3) show ?thesis
    by (auto simp: audit_Emit_def au_memory_ops_def au_memory_Put_def enqueue_def ErrDropped_def Let_def split: if_splits)
qed


section \<open>The velocity counter\<close>

lemma velocity_ok_verdict:
  assumes "eval_verdict sv ec caps req st = Some v" and "''velocity_daily_ok'' \<in> set (vd_reasons v)"
  shows "AuthOK (req_auth sv caps req) \<and> req_whitelisted sv req st \<and> \<not> velocity_exceeded sv ec caps req st"
  using assms by (auto simp: eval_verdict_def req_auth_def CheckSourceAuth_def Let_def split: if_splits)

lemma velocity_exceeded_verdict:
  assumes "eval_verdict sv ec caps req st = Some v" and "''velocity_daily_exceeded'' \<in> set (vd_reasons v)"
    and "\<not> velocity_exceeded sv ec caps req st"
  shows False
proof -
  have r: "''velocity_daily_exceeded'' \<noteq> CapReason (req_cap caps req)"
    by (simp add: req_cap_def caps_Evaluate_def Let_def)
  from assms r show False
    by (auto simp: eval_verdict_def engine_verdict_def req_auth_def CheckSourceAuth_def passed_reasons_def Let_def
        split: if_splits sum.splits)
qed

text \<open>
  C10: A request that passes the velocity check stays counted in the user's daily window whatever is decided
  afterwards, also when the cap or the engine denies it; a request denied by the velocity check is counted
  and rolled back; and a request denied by authentication or the whitelist is not counted at all.
\<close>
theorem velocity_effect:
  assumes "eval_Evaluate sv ec req st = (Return resp e, st')" and "validate req = None" and "sv_velocity sv = Some memory_counter_ops"
  shows "(''velocity_daily_ok'' \<in> set (rs_Reasons resp) \<longrightarrow>
        ev_velocity st' = snd (memory_Increment (rq_UserID req) (day_window sv) (ec_increment ec) (ev_velocity st)))
     \<and> (''velocity_daily_exceeded'' \<in> set (rs_Reasons resp) \<longrightarrow>
        ev_velocity st' = snd (memory_Rollback (rq_UserID req) (day_window sv) (ec_rollback ec)
          (snd (memory_Increment (rq_UserID req) (day_window sv) (ec_increment ec) (ev_velocity st)))))
     \<and> (''whitelisted'' \<notin> set (rs_Reasons resp) \<longrightarrow> ev_velocity st' = ev_velocity st)"
proof -
  from eval_Evaluate_Return [OF assms(1,2)] obtain caps v st1 where
    caps: "sv_caps sv = Some caps" and v: "eval_verdict sv ec caps req st = Some v" and
    fin: "finalize sv ec (ei_Version (sv_engine sv) (vd_read v)) (vd_decision v) (vd_reasons v) (vd_rules v) (vd_score v) (toAuditReq req)
           (st\<lparr>ev_velocity := velocity_after sv ec caps req st\<rparr>) = (Return resp e, st1)"
    and st': "st' = st1\<lparr>ev_metrics := observe ec (ev_metrics st1)\<rparr>" .
  have vel: "ev_velocity st' = velocity_after sv ec caps req st" using finalize_fields(1) [OF fin] by (simp add: st')
  have rs: "rs_Reasons resp = vd_reasons v" using finalize_Return [OF fin] by simp
  have 1: "velocity_after sv ec caps req st = snd (memory_Increment (rq_UserID req) (day_window sv) (ec_increment ec) (ev_velocity st))"
    if "''velocity_daily_ok'' \<in> set (vd_reasons v)"
    using velocity_ok_verdict [OF v that] assms(3) by (simp add: velocity_after_def)
  have 3: "velocity_after sv ec caps req st = ev_velocity st" if "''whitelisted'' \<notin> set (vd_reasons v)"
  proof -
    have "\<not> (AuthOK (req_auth sv caps req) \<and> req_whitelisted sv req st)"
      using v that by (auto simp: eval_verdict_def engine_verdict_def passed_reasons_def Let_def split: if_splits sum.splits)
    then show ?thesis by (auto simp: velocity_after_def)
  qed
  have 2: "velocity_after sv ec caps req st = snd (memory_Rollback (rq_UserID req) (day_window sv) (ec_rollback ec)
          (snd (memory_Increment (rq_UserID req) (day_window sv) (ec_increment ec) (ev_velocity st))))"
    if x: "''velocity_daily_exceeded'' \<in> set (vd_reasons v)"
  proof -
    have ex: "velocity_exceeded sv ec caps req st" using velocity_exceeded_verdict [OF v x] by blast
    have "AuthOK (req_auth sv caps req) \<and> req_whitelisted sv req st"
      using v x by (auto simp: eval_verdict_def req_auth_def CheckSourceAuth_def Let_def split: if_splits)
    with ex assms(3) show ?thesis by (simp add: velocity_after_def Let_def)
  qed
  from 1 2 3 show ?thesis by (simp add: vel rs)
qed

section \<open>The reported policy version\<close>

text \<open>An OPA engine read at the successive states \<open>es\<close>: first to decide, then once per version.\<close>

definition opa_iface :: "('d, 'm, 'c) opa \<Rightarrow> (nat \<Rightarrow> ('d, 'c) opa_engine) \<Rightarrow> engine_iface" where
  "opa_iface opa es = \<lparr>ei_Evaluate = engine_Evaluate opa (es 0), ei_Version = (\<lambda>n. eng_Version (es (Suc n)))\<rparr>"

lemma version_rules_const:
  "(\<And>n. ver n = Inr x) \<Longrightarrow> version_rules ver n rs = Inr (map (\<lambda>r. \<lparr>ar_ID = r, ar_Version = x\<rparr>) rs)"
  by (induction rs arbitrary: n) auto

lemma eng_Version_New [simp]: "eng_Version (NewOPAEngine opa (Some b)) = Inr (bVersion b)"
  by (simp add: eng_Version_def)

lemma verdict_versions:
  assumes "eval_verdict sv ec caps req st = Some v" and "\<And>n. ei_Version (sv_engine sv) n = Inr x"
  shows "list_all (\<lambda>ar. ar_Version ar \<in> {[], x}) (vd_rules v)"
proof -
  have c: "list_all (\<lambda>ar. ar_Version ar \<in> {[], x}) (cap_rules (req_cap caps req))"
    by (simp add: cap_rules_def split: option.splits)
  have rules: "version_rules (ei_Version (sv_engine sv)) 0 rs = Inr (map (\<lambda>r. \<lparr>ar_ID = r, ar_Version = x\<rparr>) rs)" for rs
    by (rule version_rules_const) (rule assms(2))
  from assms(1) c show ?thesis
    by (auto simp: eval_verdict_def engine_verdict_def rules Let_def list_all_iff split: if_splits sum.splits)
qed


section \<open>Amounts that are not numbers\<close>

lemma ParseFloat_NaN: "ParseFloat ''NaN'' = (NaN, None)"
  by code_simp

text \<open>
  C36: Validation accepts the amount NaN, and such an amount passes every numeric check: no 2FA threshold
  is reached and no per-transaction cap is exceeded or near, so only the engine stands between the
  request and an allow.
\<close>
theorem nan_amount_bypasses_checks:
  assumes "rq_Amount req = ''NaN''" and "TrimSpace (rq_UserID req) \<noteq> []" and "TrimSpace (rq_Currency req) \<noteq> []"
    and "TrimSpace (rq_DestAddress req) \<noteq> []"
  shows "validate req = None \<and> req_amount req = NaN \<and> \<not> HighValue2FARequired caps (rq_Rail req) (req_amount req)
     \<and> \<not> Exceeded (req_cap caps req) \<and> \<not> NearCap (req_cap caps req)"
proof -
  have trim: "TrimSpace ''NaN'' \<noteq> []" by code_simp
  have amt: "req_amount req = NaN"
    by (simp add: req_amount_def parseFloat_def assms(1) ParseFloat_NaN FXToUSD_def Let_def)
  then have "\<not> HighValue2FARequired caps (rq_Rail req) (req_amount req)"
    by (simp add: HighValue2FARequired_def list_ex_iff)
  moreover have "\<not> Exceeded (req_cap caps req) \<and> \<not> NearCap (req_cap caps req)"
    by (simp add: req_cap_def amt caps_Evaluate_def Let_def)
  moreover have "validate req = None" using assms trim by (simp add: validate_def ParseFloat_NaN)
  ultimately show ?thesis using amt by blast
qed

section \<open>Instances\<close>

definition demo_caps :: caps_config where
  "demo_caps = \<lparr>DefaultDailyCapUSD = Fin False 5, DefaultTXCapUSD = Fin False 0, NearCapThreshold = Fin False 1, Rules = []\<rparr>"

definition demo_req :: eval_request where
  "demo_req = \<lparr>rq_UserID = ''u'', rq_Amount = ''2'', rq_Currency = ''USD'', rq_Asset = ''ETH'', rq_Rail = ''card'',
     rq_DestAddress = ''0x1'', rq_DestChain = ''eth'', rq_KYTVerdict = ''clean'', rq_FraudScore = Fin False 0,
     rq_KYCStatus = ''verified'', rq_UserTier = [], rq_Session2FA = False, rq_FXRateToUSD = Fin False 0, rq_SessionValid = True\<rparr>"

definition demo_sv :: "engine_iface \<Rightarrow> (memory_counter, wl_memory, review_memory, unit, unit, audit_memory, memory_sink) eval_service" where
  "demo_sv ei = \<lparr>sv_engine = ei, sv_velocity = Some memory_counter_ops, sv_caps = Some demo_caps,
     sv_whitelist = wl_memory_ops (\<lambda>_. []), sv_review = Some rv_memory_ops, sv_audit = Some demo_deps,
     sv_sessionValidDefault = False, sv_getenv = (\<lambda>_. []), sv_impl = (\<lambda>_. 0)\<rparr>"

definition demo_st :: "(memory_counter, wl_memory, review_memory, audit_memory, memory_sink) eval_state" where
  "demo_st = \<lparr>ev_velocity = NewMemoryCounter, ev_whitelist = wl_run (wl_memory_ops (\<lambda>_. [])) wl_two wl_NewMemoryStore,
     ev_review = rv_NewMemoryStore, ev_audit = WithSyncPersist (au_NewService au_NewMemoryStore NewMemorySink 8),
     ev_metrics = zero_metrics\<rparr>"

definition demo_ec :: eval_call where
  "demo_ec = \<lparr>ec_id = ''d1'', ec_increment = 10, ec_rollback = 11, ec_emit = 12, ec_park = 13, ec_elapsed = 14\<rparr>"

lemma demo_amount: "ParseFloat ''2'' = (Fin False 2, None)"
proof -
  have "readFloat ''2'' = Some (False, 2)" by code_simp
  moreover have "parse_special ''2'' = None" by code_simp
  moreover have "round64 False 2 = Fin False 2" using f64_lit_numeral [of "Num.Bit0 Num.One"] by (simp add: f64_lit_def)
  ultimately show ?thesis by (simp add: ParseFloat_def)
qed

lemma demo_trim: "TrimSpace ''u'' = ''u''" "TrimSpace ''2'' = ''2''" "TrimSpace ''USD'' = ''USD''" "TrimSpace ''0x1'' = ''0x1''"
proof -
  show "TrimSpace ''u'' = ''u''" by code_simp
  show "TrimSpace ''2'' = ''2''" by code_simp
  show "TrimSpace ''USD'' = ''USD''" by code_simp
  show "TrimSpace ''0x1'' = ''0x1''" by code_simp
qed

lemma demo_validate: "validate demo_req = None"
  by (simp add: validate_def demo_req_def demo_trim demo_amount)

lemma demo_req_amount: "req_amount demo_req = Fin False 2"
proof -
  have "ToUpper ''USD'' = ''USD''" by code_simp
  then show ?thesis by (simp add: req_amount_def demo_req_def parseFloat_def demo_amount FXToUSD_def demo_trim)
qed

lemma demo_req_cap: "req_cap demo_caps demo_req = \<lparr>Exceeded = False, NearCap = False, CapAppliedRule = None, CapDecision = [], CapReason = []\<rparr>"
  by (simp add: req_cap_def caps_Evaluate_def demo_caps_def effectiveCap_def window_default_def matchRule_def Let_def)

lemma demo_checks:
  "AuthOK (req_auth (demo_sv ei) demo_caps demo_req)" "req_whitelisted (demo_sv ei) demo_req demo_st"
  "\<not> velocity_exceeded (demo_sv ei) demo_ec demo_caps demo_req demo_st"
proof -
  show "AuthOK (req_auth (demo_sv ei) demo_caps demo_req)"
    by (simp add: req_auth_def demo_req_def demo_caps_def HighValue2FARequired_def)
  show "req_whitelisted (demo_sv ei) demo_req demo_st"
    using wl_two_whitelisted by (simp add: req_whitelisted_def demo_sv_def demo_req_def demo_st_def)
  have "int64_of_f64 (\<lambda>_. 0) (Fin False 5) = 5" by (simp add: trunc_rat_def)
  then show "\<not> velocity_exceeded (demo_sv ei) demo_ec demo_caps demo_req demo_st"
    by (simp add: velocity_exceeded_def demo_sv_def demo_caps_def demo_st_def memory_Increment_def NewMemoryCounter_def)
qed

lemma demo_verdict:
  "eval_verdict (demo_sv ei) demo_ec demo_caps demo_req demo_st =
     engine_verdict ei (req_input demo_caps demo_req) [''whitelisted'', ''velocity_daily_ok''] []"
  using demo_checks [of ei]
  by (simp add: eval_verdict_def demo_req_cap cap_rules_def passed_reasons_def) (simp add: demo_sv_def)

lemma demo_Emit:
  assumes "dr_Score rec = Fin a b" and "dr_DecisionID rec \<noteq> []"
  shows "fst (audit_Emit demo_deps now rec (ev_audit demo_st)) = None"
proof -
  have "canonicalJSON demo_crypto (stamped now rec) = Inr (dr_DecisionID rec)"
    using assms by (simp add: canonicalJSON_def demo_crypto_def stamped_def)
  moreover have "dr_DecisionID (stamped now rec) \<noteq> []" using assms by (simp add: stamped_def)
  ultimately show ?thesis
    by (simp add: audit_Emit_def demo_deps_def signer_Sign_def demo_st_def WithSyncPersist_def au_NewService_def
        au_memory_ops_def au_memory_Put_def enqueue_def Let_def)
qed

lemma demo_finalize:
  obtains resp st1 where "finalize (demo_sv ei) demo_ec (Inr ver) dec rs rl (Fin a b) aq (demo_st\<lparr>ev_velocity := c\<rparr>) = (Return resp None, st1)"
proof -
  have aud: "sv_audit (demo_sv ei) = Some demo_deps" by (simp add: demo_sv_def)
  have "\<exists>resp st1. finalize (demo_sv ei) demo_ec (Inr ver) dec rs rl (Fin a b) aq (demo_st\<lparr>ev_velocity := c\<rparr>) = (Return resp None, st1)"
    unfolding finalize_def Let_def
    by (auto simp: aud split: prod.splits option.splits dest!: arg_cong [where f = fst])
       (simp add: demo_Emit decision_record_of_def demo_ec_def)
  with that show ?thesis by blast
qed

text \<open>The answer of the example service for a verdict of its engine.\<close>

lemma demo_eval:
  assumes "engine_verdict ei (req_input demo_caps demo_req) [''whitelisted'', ''velocity_daily_ok''] [] = Some v"
    and "ei_Version ei (vd_read v) = Inr ver" and "vd_score v = Fin a b"
  obtains resp st' where "eval_Evaluate (demo_sv ei) demo_ec demo_req demo_st = (Return resp None, st')"
    and "rs_Decision resp = vd_decision v" and "rs_Reasons resp = vd_reasons v" and "rs_PolicyVersion resp = ver"
proof -
  have caps: "sv_caps (demo_sv ei) = Some demo_caps" by (simp add: demo_sv_def)
  let ?out = "finalize (demo_sv ei) demo_ec (Inr ver) (vd_decision v) (vd_reasons v) (vd_rules v) (vd_score v) (toAuditReq demo_req)
      (demo_st\<lparr>ev_velocity := velocity_after (demo_sv ei) demo_ec demo_caps demo_req demo_st\<rparr>)"
  have eng: "sv_engine (demo_sv ei) = ei" by (simp add: demo_sv_def)
  have body: "evaluate_body (demo_sv ei) demo_ec demo_req demo_st = ?out"
    by (simp add: evaluate_body_verdict [OF caps] demo_verdict assms eng act_on_def)
  obtain resp st1 where out: "?out = (Return resp None, st1)" unfolding assms(3) by (rule demo_finalize)
  show ?thesis
    by (rule that [of resp "st1\<lparr>ev_metrics := observe demo_ec (ev_metrics st1)\<rparr>"])
       (use finalize_Return [OF out] out body demo_validate in \<open>simp_all add: eval_Evaluate_def\<close>)
qed

text \<open>Three engines: one that always allows, one that fails, and one that is swapped right after it has decided.\<close>

abbreviation demo_engine :: "string \<Rightarrow> (string, string) opa_engine" where
  "demo_engine s \<equiv> NewOPAEngine demo_opa (Some (demo_bundle s))"

abbreviation (input) allow_iface :: engine_iface where
  "allow_iface \<equiv> opa_iface demo_opa (\<lambda>_. demo_engine ''allow'')"

abbreviation (input) failing_iface :: engine_iface where
  "failing_iface \<equiv> \<lparr>ei_Evaluate = (\<lambda>_. Inl (ErrorNew ''boom'')), ei_Version = (\<lambda>_. Inr ''v1'')\<rparr>"

abbreviation (input) swapped_iface :: engine_iface where
  "swapped_iface \<equiv> opa_iface demo_opa (\<lambda>n. if n = 0 then demo_engine ''allow'' else demo_engine ''deny'')"

lemma demo_engine_allows:
  "engine_Evaluate demo_opa (demo_engine ''allow'') input = Inr (decide True False False (Fin False 0) [''allow.clean''])"
  by (simp add: demo_defs Let_def)

lemma engine_verdict_allow:
  assumes "ei_Evaluate ei input = Inr (decide True False False (Fin False 0) [''allow.clean''])" and "ei_Version ei 0 = Inr x"
  shows "engine_verdict ei input rs [] =
    Some \<lparr>vd_decision = ''allow'', vd_reasons = rs, vd_rules = [\<lparr>ar_ID = ''allow.clean'', ar_Version = x\<rparr>], vd_score = Fin False 0, vd_read = 1\<rparr>"
  using assms by (simp add: engine_verdict_def)

lemma demo_allow_verdict:
  assumes "es 0 = demo_engine ''allow''" and "es 1 = demo_engine s" and "es 2 = demo_engine s"
  obtains resp st' where "eval_Evaluate (demo_sv (opa_iface demo_opa es)) demo_ec demo_req demo_st = (Return resp None, st')"
    and "rs_Decision resp = ''allow''" and "rs_Reasons resp = [''whitelisted'', ''velocity_daily_ok'']"
    and "rs_PolicyVersion resp = bVersion (demo_bundle s)"
proof -
  have v: "engine_verdict (opa_iface demo_opa es) (req_input demo_caps demo_req) [''whitelisted'', ''velocity_daily_ok''] [] =
    Some \<lparr>vd_decision = ''allow'', vd_reasons = [''whitelisted'', ''velocity_daily_ok''],
      vd_rules = [\<lparr>ar_ID = ''allow.clean'', ar_Version = bVersion (demo_bundle s)\<rparr>], vd_score = Fin False 0, vd_read = 1\<rparr>"
    by (rule engine_verdict_allow) (use assms in \<open>simp_all add: opa_iface_def demo_engine_allows\<close>)
  have "ei_Version (opa_iface demo_opa es) 1 = Inr (bVersion (demo_bundle s))"
    using assms(3) by (simp add: opa_iface_def numeral_2_eq_2)
  then show ?thesis using demo_eval [OF v, of "bVersion (demo_bundle s)" False 0] that by auto
qed

lemma demo_allow_run:
  obtains resp st' where "eval_Evaluate (demo_sv allow_iface) demo_ec demo_req demo_st = (Return resp None, st')"
    and "rs_Decision resp = ''allow''" and "rs_Reasons resp = [''whitelisted'', ''velocity_daily_ok'']"
  by (rule demo_allow_verdict [of "\<lambda>_. demo_engine ''allow''" "''allow''"]) simp_all

lemma demo_half: "f64_lit (1/2) = Fin False (1/2)"
proof -
  have "round_mag (1/2) = 1/2" using round_mag_eval [of "-1" "1/2" 4503599627370496] by (simp add: pow2_def)
  then show ?thesis by (simp add: f64_lit_def round64_def pow2_def)
qed

lemma demo_failing_run:
  obtains resp st' where "eval_Evaluate (demo_sv failing_iface) demo_ec demo_req demo_st = (Return resp None, st')"
    and "rs_Decision resp = ''manual_review''"
proof -
  have v: "engine_verdict failing_iface (req_input demo_caps demo_req) [''whitelisted'', ''velocity_daily_ok''] [] =
    Some \<lparr>vd_decision = ''manual_review'', vd_reasons = [''whitelisted'', ''velocity_daily_ok'', ''engine_error''], vd_rules = [],
      vd_score = Fin False (1/2), vd_read = 0\<rparr>"
    by (simp add: engine_verdict_def demo_half)
  show ?thesis using demo_eval [OF v, of "''v1''" False "1/2"] that by auto
qed

text \<open>
  The version is read after the decision without holding on to the bundle: when a swap falls between the
  two, the request is allowed by one bundle and the answer and the audit record attribute the allow to the
  other, which denies everything.
\<close>
theorem version_race:
  "\<exists>resp st'. eval_Evaluate (demo_sv swapped_iface) demo_ec demo_req demo_st = (Return resp None, st')
     \<and> rs_Decision resp = ''allow'' \<and> rs_PolicyVersion resp = bVersion (demo_bundle ''deny'')
     \<and> (\<forall>input. \<exists>r. engine_Evaluate demo_opa (demo_engine ''deny'') input = Inr r \<and> resDecision r = ''deny'')"
proof -
  have deny: "\<exists>r. engine_Evaluate demo_opa (demo_engine ''deny'') input = Inr r \<and> resDecision r = ''deny''" for input
    by (simp add: demo_defs Let_def)
  show ?thesis
    by (rule demo_allow_verdict [of "\<lambda>n. if n = 0 then demo_engine ''allow'' else demo_engine ''deny''" "''deny''"])
       (use deny in auto)
qed

theorem evaluate_refines_verdict_witness:
  "eval_Evaluate (demo_sv allow_iface) demo_ec demo_req demo_st =
     (case act_on (demo_sv allow_iface) demo_ec demo_req (eval_verdict (demo_sv allow_iface) demo_ec demo_caps demo_req demo_st)
          (demo_st\<lparr>ev_velocity := velocity_after (demo_sv allow_iface) demo_ec demo_caps demo_req demo_st\<rparr>) of
        (out, st') \<Rightarrow> (out, st'\<lparr>ev_metrics := observe demo_ec (ev_metrics st')\<rparr>))"
  by (rule evaluate_refines_verdict [OF demo_validate]) (simp add: demo_sv_def)

theorem allow_requires_all_checks_witness:
  "\<exists>caps r. sv_caps (demo_sv allow_iface) = Some caps
     \<and> ei_Evaluate (sv_engine (demo_sv allow_iface)) (req_input caps demo_req) = Inr r \<and> resDecision r = ''allow''"
proof -
  obtain resp st' where run: "eval_Evaluate (demo_sv allow_iface) demo_ec demo_req demo_st = (Return resp None, st')"
    and dec: "rs_Decision resp = ''allow''" by (rule demo_allow_run)
  from allow_requires_all_checks [OF run dec] show ?thesis by blast
qed

theorem engine_error_fails_safe_witness:
  "\<exists>resp st'. eval_Evaluate (demo_sv failing_iface) demo_ec demo_req demo_st = (Return resp None, st')
     \<and> rs_Decision resp = ''manual_review'' \<and> rs_Reasons resp = [''whitelisted'', ''velocity_daily_ok'', ''engine_error'']"
proof -
  obtain resp st' where run: "eval_Evaluate (demo_sv failing_iface) demo_ec demo_req demo_st = (Return resp None, st')"
    by (rule demo_failing_run)
  have "sv_caps (demo_sv failing_iface) = Some demo_caps"
    and "ei_Evaluate (sv_engine (demo_sv failing_iface)) (req_input demo_caps demo_req) = Inl (ErrorNew ''boom'')"
    by (simp_all add: demo_sv_def)
  from engine_error_fails_safe [OF run demo_validate this] show ?thesis
    using run demo_checks [of failing_iface] by (simp add: demo_req_cap passed_reasons_def) (simp add: demo_sv_def)
qed

theorem evaluate_total_witness:
  "\<exists>resp e. fst (eval_Evaluate (demo_sv failing_iface) demo_ec demo_req demo_st) = Return resp e
     \<and> rs_Decision resp \<in> {''allow'', ''deny'', ''manual_review''}"
  using evaluate_total [of "demo_sv failing_iface" demo_req demo_ec demo_st, OF _ _ _ demo_validate]
  by (simp add: demo_sv_def)

theorem evaluate_metrics_witness:
  "\<exists>resp st'. eval_Evaluate (demo_sv allow_iface) demo_ec demo_req demo_st = (Return resp None, st')
     \<and> AllowTotal (ev_metrics st') = 1 \<and> DenyTotal (ev_metrics st') = 0 \<and> EvaluateTotal (ev_metrics st') = 1"
proof -
  obtain resp st' where run: "eval_Evaluate (demo_sv allow_iface) demo_ec demo_req demo_st = (Return resp None, st')"
    and dec: "rs_Decision resp = ''allow''" by (rule demo_allow_run)
  have m: "ev_metrics demo_st = zero_metrics" by (simp add: demo_st_def)
  from evaluate_metrics [OF run] run dec show ?thesis by (simp add: demo_validate m) (simp add: zero_metrics_def)
qed



theorem velocity_effect_witness:
  "\<exists>resp st'. eval_Evaluate (demo_sv allow_iface) demo_ec demo_req demo_st = (Return resp None, st')
     \<and> ev_velocity st' = snd (memory_Increment ''u'' (day_window (demo_sv allow_iface)) 10 NewMemoryCounter)"
proof -
  obtain resp st' where run: "eval_Evaluate (demo_sv allow_iface) demo_ec demo_req demo_st = (Return resp None, st')"
    and rs: "rs_Reasons resp = [''whitelisted'', ''velocity_daily_ok'']" by (rule demo_allow_run)
  have "sv_velocity (demo_sv allow_iface) = Some memory_counter_ops" by (simp add: demo_sv_def)
  from velocity_effect [OF run demo_validate this] rs
  have "ev_velocity st' = snd (memory_Increment (rq_UserID demo_req) (day_window (demo_sv allow_iface)) (ec_increment demo_ec) (ev_velocity demo_st))"
    by simp
  with run show ?thesis by (auto simp: demo_req_def demo_ec_def demo_st_def)
qed


theorem nan_amount_bypasses_checks_witness:
  "validate (demo_req\<lparr>rq_Amount := ''NaN''\<rparr>) = None \<and> \<not> Exceeded (req_cap default_caps (demo_req\<lparr>rq_Amount := ''NaN''\<rparr>))"
  using nan_amount_bypasses_checks [of "demo_req\<lparr>rq_Amount := ''NaN''\<rparr>" default_caps]
  by (simp add: demo_req_def demo_trim)

end
