(* ===== verification/Api.thy ===== *)
theory Api
  imports Auth Evaluate
begin

text \<open>
  Package \<^verbatim>\<open>internal/api\<close>: the routes, the authentication middleware, the REST handlers (\<^verbatim>\<open>api.go\<close>), the
  publishing of rules (\<^verbatim>\<open>rules.go\<close>) and the gRPC adapter (\<^verbatim>\<open>grpc.go\<close>).

  A request carries the decoded segments of its path; \<^verbatim>\<open>http.ServeMux\<close> matches them one by one, a wildcard
  matching one non-empty segment (a path that is not in clean form never reaches a handler, the multiplexer
  redirects it). The JSON decoders are parameters, an answer is its status and the value that
  is encoded, and a handler that panics gives no answer. Whitelist, review queue and audit service are the ones
  of the evaluation path, and the engine is shared with it.
\<close>

section \<open>Requests, answers and errors\<close>

record http_request =
  hq_method :: string
  hq_segments :: "string list"
  hq_auth :: string
  hq_query :: "string \<Rightarrow> string"
  hq_body :: "string result"

definition url_path :: "http_request \<Rightarrow> string" where
  "url_path r = concat (map (\<lambda>s. ''/'' @ s) (hq_segments r))"

record app_error =
  ae_Code :: string
  ae_Message :: string
  ae_StatusCode :: nat

definition newAppError :: "string \<Rightarrow> string \<Rightarrow> nat \<Rightarrow> app_error" where
  "newAppError code msg status = \<lparr>ae_Code = code, ae_Message = msg, ae_StatusCode = status\<rparr>"

definition errBadJSON :: app_error where "errBadJSON = newAppError ''bad_json'' ''invalid JSON body'' 400"
definition errMissingUserID :: app_error where "errMissingUserID = newAppError ''missing_user_id'' ''user_id is required'' 400"
definition errMissingDecisionID :: app_error where "errMissingDecisionID = newAppError ''missing_decision_id'' ''decision_id is required'' 400"
definition errReviewNotFound :: app_error where "errReviewNotFound = newAppError ''review_not_found'' ''review item not found'' 404"
definition errReviewResolved :: app_error where "errReviewResolved = newAppError ''review_resolved'' ''review item already resolved'' 409"
definition errWLNotFound :: app_error where "errWLNotFound = newAppError ''whitelist_not_found'' ''whitelist entry not found'' 404"

text \<open>Errors of the services are never application errors themselves, so the first case of the code does not apply to them.\<close>

definition toAppError :: "gerror \<Rightarrow> app_error" where
  "toAppError err =
     (if errors_Is err rv_ErrNotFound then errReviewNotFound
      else if errors_Is err rv_ErrAlreadyResolved then errReviewResolved
      else if errors_Is err wl_ErrNotFound then errWLNotFound
      else newAppError ''internal_error'' ''internal server error'' 500)"

datatype api_body =
    BHealth
  | BMetrics string
  | BError string string
  | BEvaluate eval_response
  | BEntry wl_entry
  | BEntries "wl_entry list"
  | BItem review_item
  | BItems "review_item list"
  | BNoRules
  | BRules string string
  | BPublished string string bool
  | BNotFound

record http_answer =
  an_status :: nat
  an_body :: api_body

definition writeAppError :: "app_error \<Rightarrow> http_answer" where
  "writeAppError ae = \<lparr>an_status = ae_StatusCode ae, an_body = BError (ae_Code ae) (ae_Message ae)\<rparr>"

definition writeError :: "gerror \<Rightarrow> http_answer" where
  "writeError err = writeAppError (toAppError err)"

definition writeJSON :: "nat \<Rightarrow> api_body \<Rightarrow> http_answer" where
  "writeJSON status v = \<lparr>an_status = status, an_body = v\<rparr>"

record add_whitelist_request =
  aw_UserID :: string
  aw_Chain :: string
  aw_Address :: string
  aw_Label :: string

record verify_whitelist_request =
  vw_Chain :: string
  vw_Address :: string

record resolve_review_request =
  rr_Assignee :: string
  rr_Resolution :: string

record api_json =
  js_evaluate :: "string \<Rightarrow> eval_request option"
  js_add :: "string \<Rightarrow> add_whitelist_request option"
  js_verify :: "string \<Rightarrow> verify_whitelist_request option"
  js_resolve :: "string \<Rightarrow> resolve_review_request option"

definition decodeJSON :: "(string \<Rightarrow> 'a option) \<Rightarrow> http_request \<Rightarrow> 'a option" where
  "decodeJSON dec r = (case hq_body r of Inl err \<Rightarrow> None | Inr body \<Rightarrow> if body = [] then None else dec body)"

section \<open>Services and state\<close>

text \<open>
  The database handle is the operation that activates a policy version (policy, version, hash, source and
  author). The clock readings and the decision id of a request are in \<open>api_call\<close>.
\<close>

record ('v, 'w, 'r, 'sk, 'pk, 's, 'k, 'd, 'm, 'c, 'db) api_services =
  as_eval :: "('v, 'w, 'r, 'sk, 'pk, 's, 'k) eval_service"
  as_review :: "'r review_store_ops"
  as_notifier :: "notifier option"
  as_auth :: "auth_config option"
  as_db :: "(string \<Rightarrow> string \<Rightarrow> string \<Rightarrow> string \<Rightarrow> string \<Rightarrow> 'db \<Rightarrow> gerror option \<times> 'db) option"
  as_opa :: "('d, 'm, 'c) opa"
  as_sha256hex :: "string \<Rightarrow> string"
  as_marshal :: "'d \<Rightarrow> string"
  as_json :: api_json
  as_jwt :: jwt_lib

record ('v, 'w, 'r, 's, 'k, 'd, 'c, 'db) api_state =
  ap_eval :: "('v, 'w, 'r, 's, 'k) eval_state"
  ap_engine :: "('d, 'c) opa_engine option"
  ap_db :: 'db

record api_call =
  cc_eval :: eval_call
  cc_auth :: gotime
  cc_whitelist :: gotime
  cc_resolve :: gotime

text \<open>The engine as the evaluation path sees it; a missing engine is a nil interface.\<close>

definition live_engine :: "('d, 'm, 'c) opa \<Rightarrow> ('d, 'c) opa_engine option \<Rightarrow> engine_iface" where
  "live_engine opa e =
     opa_iface opa (\<lambda>_. case e of Some e \<Rightarrow> e | None \<Rightarrow> \<lparr>eng_bundle = None, eng_compiler = None, eng_store = []\<rparr>)"

section \<open>Handlers\<close>

definition evaluateHandler where
  "evaluateHandler s cc r st =
     (case decodeJSON (js_evaluate (as_json s)) r of
        None \<Rightarrow> (Some (writeAppError errBadJSON), st)
      | Some req \<Rightarrow>
          (case (case as_auth s of
                   Some cfg \<Rightarrow>
                     if auth_Enabled (as_auth s)
                     then (case validateBearer (as_jwt s) cfg (cc_auth cc) (hq_auth r) of Inl err \<Rightarrow> Some err | Inr _ \<Rightarrow> None)
                     else None
                 | None \<Rightarrow> None) of
             Some err \<Rightarrow> (Some (writeAppError (newAppError ''unauthorized'' (err_Error err) 401)), st)
           | None \<Rightarrow>
               (case eval_Evaluate ((as_eval s)\<lparr>sv_engine := live_engine (as_opa s) (ap_engine st)\<rparr>) (cc_eval cc)
                       (req\<lparr>rq_SessionValid := True\<rparr>) (ap_eval st) of
                  (Panic, ev) \<Rightarrow> (None, st\<lparr>ap_eval := ev\<rparr>)
                | (Return resp (Some err), ev) \<Rightarrow> (Some (writeError err), st\<lparr>ap_eval := ev\<rparr>)
                | (Return resp None, ev) \<Rightarrow> (Some (writeJSON 200 (BEvaluate resp)), st\<lparr>ap_eval := ev\<rparr>))))"

definition addWhitelistHandler where
  "addWhitelistHandler s cc r st =
     (case decodeJSON (js_add (as_json s)) r of
        None \<Rightarrow> (Some (writeAppError errBadJSON), st)
      | Some req \<Rightarrow>
          if aw_UserID req = [] then (Some (writeAppError errMissingUserID), st)
          else (case wl_Add (sv_whitelist (as_eval s)) (cc_whitelist cc) (aw_UserID req) (aw_Chain req) (aw_Address req) (aw_Label req)
                       (ev_whitelist (ap_eval st)) of
                  ((_, Some err), w) \<Rightarrow> (Some (writeError err), st\<lparr>ap_eval := (ap_eval st)\<lparr>ev_whitelist := w\<rparr>\<rparr>)
                | ((entry, None), w) \<Rightarrow> (Some (writeJSON 201 (BEntry entry)), st\<lparr>ap_eval := (ap_eval st)\<lparr>ev_whitelist := w\<rparr>\<rparr>)))"

definition listWhitelistHandler where
  "listWhitelistHandler s userID st =
     (if userID = [] then (Some (writeAppError errMissingUserID), st)
      else case wl_List (sv_whitelist (as_eval s)) userID (ev_whitelist (ap_eval st)) of
             Inl err \<Rightarrow> (Some (writeError err), st)
           | Inr entries \<Rightarrow> (Some (writeJSON 200 (BEntries entries)), st))"

definition verifyWhitelistHandler where
  "verifyWhitelistHandler s cc r userID st =
     (case decodeJSON (js_verify (as_json s)) r of
        None \<Rightarrow> (Some (writeAppError errBadJSON), st)
      | Some req \<Rightarrow>
          (case wl_Verify (sv_whitelist (as_eval s)) (cc_whitelist cc) userID (vw_Chain req) (vw_Address req) (ev_whitelist (ap_eval st)) of
             ((_, Some err), w) \<Rightarrow> (Some (writeError err), st\<lparr>ap_eval := (ap_eval st)\<lparr>ev_whitelist := w\<rparr>\<rparr>)
           | ((entry, None), w) \<Rightarrow> (Some (writeJSON 200 (BEntry entry)), st\<lparr>ap_eval := (ap_eval st)\<lparr>ev_whitelist := w\<rparr>\<rparr>)))"

definition resolveReviewHandler where
  "resolveReviewHandler s cc r decisionID st =
     (if decisionID = [] then (Some (writeAppError errMissingDecisionID), st)
      else case decodeJSON (js_resolve (as_json s)) r of
        None \<Rightarrow> (Some (writeAppError errBadJSON), st)
      | Some req \<Rightarrow>
          (case rv_Resolve (as_review s) (as_notifier s) (cc_resolve cc) decisionID (rr_Assignee req) (rr_Resolution req) (ev_review (ap_eval st)) of
             ((_, Some err), _, rv) \<Rightarrow> (Some (writeError err), st\<lparr>ap_eval := (ap_eval st)\<lparr>ev_review := rv\<rparr>\<rparr>)
           | ((item, None), _, rv) \<Rightarrow> (Some (writeJSON 200 (BItem item)), st\<lparr>ap_eval := (ap_eval st)\<lparr>ev_review := rv\<rparr>\<rparr>)))"

definition listReviewHandler where
  "listReviewHandler s r st =
     (case rv_List (as_review s) (hq_query r ''status'') (ev_review (ap_eval st)) of
        Inl err \<Rightarrow> (Some (writeError err), st)
      | Inr items \<Rightarrow> (Some (writeJSON 200 (BItems items)), st))"

definition rules_answer :: "('d, 'c) opa_engine \<Rightarrow> http_answer option" where
  "rules_answer e = (case (eng_Version e, eng_Hash e) of (Inr v, Inr h) \<Rightarrow> Some (writeJSON 200 (BRules v h)) | _ \<Rightarrow> None)"

definition listRulesHandler where
  "listRulesHandler st =
     (case ap_engine st of
        None \<Rightarrow> (Some (writeJSON 200 BNoRules), st)
      | Some e \<Rightarrow> (rules_answer e, st))"

definition getRuleHandler where
  "getRuleHandler version st =
     (let notFound = Some (writeAppError (newAppError ''rule_not_found'' ''rule version not found'' 404))
      in case ap_engine st of
           None \<Rightarrow> (notFound, st)
         | Some e \<Rightarrow>
             (case eng_Version e of
                Inl panic \<Rightarrow> (None, st)
              | Inr v \<Rightarrow> if version \<noteq> v then (notFound, st) else (rules_answer e, st)))"

section \<open>Publishing rules\<close>

fun bytesTrim :: "string \<Rightarrow> string" where
  "bytesTrim [] = []"
| "bytesTrim (c # b) =
     (if c = CHR '' '' \<or> c = CHR 0x09 \<or> c = CHR 0x0A \<or> c = CHR 0x0D then bytesTrim b else c # b)"

definition publishBundle ::
  "(string \<Rightarrow> string) \<Rightarrow> ('d \<Rightarrow> string) \<Rightarrow> ('d, 'c) opa_engine \<Rightarrow> string \<Rightarrow> 'd policy_bundle result" where
  "publishBundle sha256hex marshal eng body =
     (if bytesTrim body = [] then Inl (ErrorNew ''empty rego source'')
      else let src = [(''decisions.rego'', body)];
               data = (case eng_Bundle eng of None \<Rightarrow> [] | Some current \<Rightarrow> mergeData [] (bData current));
               hash = hashBundle sha256hex marshal src data
           in Inr \<lparr>bVersion = hash, bHash = hash, bSource = src, bData = data\<rparr>)"

definition publishRulesHandler where
  "publishRulesHandler s r st =
     (case hq_body r of
        Inl err \<Rightarrow> (Some (writeAppError errBadJSON), st)
      | Inr body \<Rightarrow>
          if bytesTrim body = [] then (Some (writeAppError errBadJSON), st)
          else let activate = (map lower_ascii (hq_query r ''activate'') = ''true'')
               in case ap_engine st of
                    None \<Rightarrow> (Some (writeAppError (newAppError ''engine_unavailable'' ''policy engine not reloadable'' 503)), st)
                  | Some eng \<Rightarrow>
                      (case publishBundle (as_sha256hex s) (as_marshal s) eng body of
                         Inl err \<Rightarrow> (Some (writeAppError (newAppError ''publish_failed'' (err_Error err) 400)), st)
                       | Inr rules \<Rightarrow>
                           (case (case as_db s of
                                    None \<Rightarrow> (None, ap_db st)
                                  | Some activate_version \<Rightarrow> activate_version ''default'' (bVersion rules) (bHash rules) body ''api'' (ap_db st)) of
                              (Some err, db) \<Rightarrow> (Some (writeAppError (newAppError ''publish_db_failed'' (err_Error err) 500)), st\<lparr>ap_db := db\<rparr>)
                            | (None, db) \<Rightarrow>
                                let st1 = st\<lparr>ap_db := db\<rparr>;
                                    m = ev_metrics (ap_eval st1);
                                    st2 = (if activate
                                           then st1\<lparr>ap_engine := Some (Swap (as_opa s) (Some rules) eng),
                                                    ap_eval := (ap_eval st1)\<lparr>ev_metrics := m\<lparr>HotReloadSwaps := HotReloadSwaps m + 1\<rparr>\<rparr>\<rparr>
                                           else st1)
                                in (Some (writeJSON 201 (BPublished (bVersion rules) (bHash rules) activate)), st2))))"

section \<open>Routes\<close>

datatype route =
    Healthz
  | MetricsRoute
  | EvaluateRoute
  | AddWhitelist
  | ListWhitelist string
  | VerifyWhitelist string
  | ResolveReview string
  | ListReview
  | ListRules
  | GetRule string
  | PublishRules

definition is_get :: "string \<Rightarrow> bool" where
  "is_get m \<longleftrightarrow> m = ''GET'' \<or> m = ''HEAD''"

definition mux_match :: "string \<Rightarrow> string list \<Rightarrow> route option" where
  "mux_match m p =
     (if p = [''healthz''] then Some Healthz
      else if p = [''metrics''] then Some MetricsRoute
      else if p = [''v1'', ''policy'', ''evaluate''] \<and> m = ''POST'' then Some EvaluateRoute
      else if p = [''v1'', ''policy'', ''whitelist''] \<and> m = ''POST'' then Some AddWhitelist
      else if length p = 4 \<and> take 3 p = [''v1'', ''policy'', ''whitelist''] \<and> p ! 3 \<noteq> [] \<and> is_get m then Some (ListWhitelist (p ! 3))
      else if length p = 5 \<and> take 3 p = [''v1'', ''policy'', ''whitelist''] \<and> p ! 3 \<noteq> [] \<and> p ! 4 = ''verify'' \<and> m = ''POST'' then Some (VerifyWhitelist (p ! 3))
      else if length p = 5 \<and> take 3 p = [''v1'', ''policy'', ''review''] \<and> p ! 3 \<noteq> [] \<and> p ! 4 = ''resolve'' \<and> m = ''POST'' then Some (ResolveReview (p ! 3))
      else if p = [''v1'', ''policy'', ''review''] \<and> is_get m then Some ListReview
      else if p = [''v1'', ''policy'', ''rules''] \<and> is_get m then Some ListRules
      else if length p = 4 \<and> take 3 p = [''v1'', ''policy'', ''rules''] \<and> p ! 3 \<noteq> [] \<and> is_get m then Some (GetRule (p ! 3))
      else if p = [''v1'', ''policy'', ''rules''] \<and> m = ''POST'' then Some PublishRules
      else None)"

text \<open>A path that is registered for another method only is answered with 405 instead of 404.\<close>

definition path_known :: "string list \<Rightarrow> bool" where
  "path_known p \<longleftrightarrow> mux_match ''GET'' p \<noteq> None \<or> mux_match ''POST'' p \<noteq> None"

abbreviation healthz :: http_answer where
  "healthz \<equiv> writeJSON 200 BHealth"

abbreviation metrics_Handler :: "metrics \<Rightarrow> http_answer" where
  "metrics_Handler m \<equiv> \<lparr>an_status = 200, an_body = BMetrics (render m)\<rparr>"

definition dispatch where
  "dispatch s cc r st =
     (case mux_match (hq_method r) (hq_segments r) of
        None \<Rightarrow> (Some \<lparr>an_status = (if path_known (hq_segments r) then 405 else 404), an_body = BNotFound\<rparr>, st)
      | Some Healthz \<Rightarrow> (Some healthz, st)
      | Some MetricsRoute \<Rightarrow> (Some (metrics_Handler (ev_metrics (ap_eval st))), st)
      | Some EvaluateRoute \<Rightarrow> evaluateHandler s cc r st
      | Some AddWhitelist \<Rightarrow> addWhitelistHandler s cc r st
      | Some (ListWhitelist u) \<Rightarrow> listWhitelistHandler s u st
      | Some (VerifyWhitelist u) \<Rightarrow> verifyWhitelistHandler s cc r u st
      | Some (ResolveReview d) \<Rightarrow> resolveReviewHandler s cc r d st
      | Some ListReview \<Rightarrow> listReviewHandler s r st
      | Some ListRules \<Rightarrow> listRulesHandler st
      | Some (GetRule v) \<Rightarrow> getRuleHandler v st
      | Some PublishRules \<Rightarrow> publishRulesHandler s r st)"

text \<open>The whole handler: the middleware in front of the routes.\<close>

definition serve where
  "serve s cc r st =
     (case as_auth s of
        None \<Rightarrow> dispatch s cc r st
      | Some cfg \<Rightarrow>
          if \<not> auth_Enabled (as_auth s) \<or> \<not> isAdminPath (hq_method r) (url_path r) then dispatch s cc r st
          else (case validateBearer (as_jwt s) cfg (cc_auth cc) (hq_auth r) of
                  Inl err \<Rightarrow> (Some (writeAppError (newAppError ''unauthorized'' (err_Error err) 401)), st)
                | Inr cl \<Rightarrow>
                    if \<not> HasAnyScope cl (AdminScopes cfg)
                    then (Some (writeAppError (newAppError ''forbidden'' ''missing required scope'' 403)), st)
                    else dispatch s cc r st))"

section \<open>The gRPC adapter\<close>

record proto_request =
  pq_UserId :: string
  pq_Amount :: string
  pq_Currency :: string
  pq_Asset :: string
  pq_Rail :: string
  pq_DestAddress :: string
  pq_DestChain :: string
  pq_KytVerdict :: string
  pq_FraudScore :: f64
  pq_KycStatus :: string
  pq_UserTier :: string
  pq_Session_2FaPassed :: bool
  pq_FxRateToUsd :: f64

definition evaluateRequestFromProto :: "proto_request \<Rightarrow> eval_request" where
  "evaluateRequestFromProto req =
     \<lparr>rq_UserID = pq_UserId req, rq_Amount = pq_Amount req, rq_Currency = pq_Currency req, rq_Asset = pq_Asset req,
      rq_Rail = pq_Rail req, rq_DestAddress = pq_DestAddress req, rq_DestChain = pq_DestChain req, rq_KYTVerdict = pq_KytVerdict req,
      rq_FraudScore = pq_FraudScore req, rq_KYCStatus = pq_KycStatus req, rq_UserTier = pq_UserTier req,
      rq_Session2FA = pq_Session_2FaPassed req, rq_FXRateToUSD = pq_FxRateToUsd req, rq_SessionValid = False\<rparr>"

record proto_response =
  pr_Decision :: string
  pr_Reasons :: "string list"
  pr_AppliedRules :: "(string \<times> string) list"
  pr_PolicyVersion :: string
  pr_Score :: f64
  pr_DecisionId :: string

definition evaluateResponseToProto :: "eval_response \<Rightarrow> proto_response" where
  "evaluateResponseToProto resp =
     \<lparr>pr_Decision = rs_Decision resp, pr_Reasons = rs_Reasons resp,
      pr_AppliedRules = map (\<lambda>r. (ar_ID r, ar_Version r)) (rs_AppliedRules resp),
      pr_PolicyVersion = rs_PolicyVersion resp, pr_Score = rs_Score resp, pr_DecisionId = rs_DecisionID resp\<rparr>"

datatype grpc_outcome = GPanic | GError gerror | GResponse proto_response

text \<open>The service is optional: an unconfigured one is reported as an error.\<close>

definition grpc_Evaluate where
  "grpc_Evaluate sv ec req ev =
     (case sv of
        None \<Rightarrow> (GError (ErrorNew ''evaluate service not configured''), ev)
      | Some sv \<Rightarrow>
          (case eval_Evaluate sv ec (evaluateRequestFromProto req) ev of
             (Panic, ev') \<Rightarrow> (GPanic, ev')
           | (Return resp (Some err), ev') \<Rightarrow> (GError err, ev')
           | (Return resp None, ev') \<Rightarrow> (GResponse (evaluateResponseToProto resp), ev')))"

section \<open>The guard of the state\<close>

lemma take3_segments:
  assumes "length p = 5" and "take 3 p = [a, b, c]"
  shows "p = [a, b, c, p ! 3, p ! 4]"
proof -
  from assms(1) obtain x0 x1 x2 x3 x4 where "p = [x0, x1, x2, x3, x4]"
    by (auto simp: numeral_eq_Suc length_Suc_conv)
  with assms(2) show ?thesis by (simp add: numeral_eq_Suc)
qed

lemma mutating_routes_admin:
  assumes "mux_match (hq_method r) (hq_segments r) = Some rt"
    and "rt \<in> {AddWhitelist, PublishRules} \<or> (\<exists>u. rt = VerifyWhitelist u) \<or> (\<exists>d. rt = ResolveReview d)"
  shows "isAdminPath (hq_method r) (url_path r)"
proof -
  let ?p = "hq_segments r"
  have "hq_method r = ''POST'' \<and> (?p = [''v1'', ''policy'', ''whitelist''] \<or> ?p = [''v1'', ''policy'', ''rules'']
     \<or> (length ?p = 5 \<and> take 3 ?p = [''v1'', ''policy'', ''whitelist''] \<and> ?p ! 4 = ''verify'')
     \<or> (length ?p = 5 \<and> take 3 ?p = [''v1'', ''policy'', ''review''] \<and> ?p ! 4 = ''resolve''))"
    using assms unfolding mux_match_def by (auto split: if_splits)
  then consider "hq_method r = ''POST''" "?p = [''v1'', ''policy'', ''whitelist''] \<or> ?p = [''v1'', ''policy'', ''rules'']"
    | (verify) "hq_method r = ''POST''" "?p = [''v1'', ''policy'', ''whitelist'', ?p ! 3, ''verify'']"
    | (resolve) "hq_method r = ''POST''" "?p = [''v1'', ''policy'', ''review'', ?p ! 3, ''resolve'']"
    using take3_segments [of ?p] by metis
  then show ?thesis
  proof cases
    case 1
    then show ?thesis by (auto simp: isAdminPath_def url_path_def)
  next
    case verify
    have "url_path r = ''/v1/policy/whitelist/'' @ ?p ! 3 @ ''/verify''"
      unfolding url_path_def by (subst verify(2)) simp
    with verify(1) show ?thesis by (simp add: isAdminPath_def HasPrefix_def HasSuffix_def suffix_def)
  next
    case resolve
    have "url_path r = ''/v1/policy/review/'' @ ?p ! 3 @ ''/resolve''"
      unfolding url_path_def by (subst resolve(2)) simp
    with resolve(1) show ?thesis by (simp add: isAdminPath_def HasPrefix_def HasSuffix_def suffix_def)
  qed
qed

lemma read_only_handlers:
  "snd (listWhitelistHandler s u st) = st" "snd (listReviewHandler s r st) = st"
  "snd (listRulesHandler st) = st" "snd (getRuleHandler v st) = st"
  by (simp_all add: listWhitelistHandler_def listReviewHandler_def listRulesHandler_def getRuleHandler_def Let_def
      split: sum.splits option.splits)

lemma evaluate_needs_token:
  assumes "as_auth s = Some cfg" and "auth_Enabled (Some cfg)"
    and "validateBearer (as_jwt s) cfg (cc_auth cc) (hq_auth r) = Inl err"
  shows "snd (evaluateHandler s cc r st) = st"
  using assms by (simp add: evaluateHandler_def split: option.splits)

lemma dispatch_read_only:
  assumes "\<not> isAdminPath (hq_method r) (url_path r)"
  shows "snd (dispatch s cc r st) = st \<or> mux_match (hq_method r) (hq_segments r) = Some EvaluateRoute"
proof (cases "mux_match (hq_method r) (hq_segments r)")
  case None
  then show ?thesis by (simp add: dispatch_def)
next
  case (Some rt)
  from mutating_routes_admin [OF Some] assms Some show ?thesis
    by (cases rt) (simp_all add: dispatch_def read_only_handlers)
qed

text \<open>
  C16: With authentication enabled no request changes any state (whitelist, review queue, rules, database,
  counters, audit log or metrics) without a bearer token that passes validation; every change other than an
  evaluation also needs one of the admin scopes.
\<close>
theorem state_change_needs_token:
  assumes "as_auth s = Some cfg" and "JWTIssuer cfg \<noteq> []" and "serve s cc r st = (ans, st')" and "st' \<noteq> st"
  shows "\<exists>cl. validateBearer (as_jwt s) cfg (cc_auth cc) (hq_auth r) = Inr cl
     \<and> (HasAnyScope cl (AdminScopes cfg) \<or> mux_match (hq_method r) (hq_segments r) = Some EvaluateRoute)"
proof -
  have en: "auth_Enabled (Some cfg)" using assms(2) by (simp add: auth_Enabled_def)
  have st': "st' = snd (serve s cc r st)" using assms(3) by simp
  show ?thesis
  proof (cases "isAdminPath (hq_method r) (url_path r)")
    case True
    with assms(1,4) en st' show ?thesis by (auto simp: serve_def split: sum.splits if_splits)
  next
    case False
    then have "st' = snd (dispatch s cc r st)" using assms(1) st' by (simp add: serve_def)
    with assms(4) dispatch_read_only [OF False] have ev: "mux_match (hq_method r) (hq_segments r) = Some EvaluateRoute" by metis
    with \<open>st' = snd (dispatch s cc r st)\<close> have "st' = snd (evaluateHandler s cc r st)" by (simp add: dispatch_def)
    with evaluate_needs_token [OF assms(1) en] assms(4)
    have "validateBearer (as_jwt s) cfg (cc_auth cc) (hq_auth r) \<noteq> Inl err" for err by metis
    then obtain cl where "validateBearer (as_jwt s) cfg (cc_auth cc) (hq_auth r) = Inr cl"
      by (cases "validateBearer (as_jwt s) cfg (cc_auth cc) (hq_auth r)") auto
    with ev show ?thesis by blast
  qed
qed

section \<open>The two transports\<close>

lemma session_flag_irrelevant:
  "validate (req\<lparr>rq_SessionValid := b\<rparr>) = validate req" "toAuditReq (req\<lparr>rq_SessionValid := b\<rparr>) = toAuditReq req"
  "req_amount (req\<lparr>rq_SessionValid := b\<rparr>) = req_amount req" "req_tier (req\<lparr>rq_SessionValid := b\<rparr>) = req_tier req"
  "req_cap caps (req\<lparr>rq_SessionValid := b\<rparr>) = req_cap caps req" "req_input caps (req\<lparr>rq_SessionValid := b\<rparr>) = req_input caps req"
  "req_whitelisted sv (req\<lparr>rq_SessionValid := b\<rparr>) st = req_whitelisted sv req st"
  "velocity_exceeded sv ec caps (req\<lparr>rq_SessionValid := b\<rparr>) st = velocity_exceeded sv ec caps req st"
  by (simp_all add: validate_def toAuditReq_def req_amount_def req_tier_def req_cap_def req_input_def req_whitelisted_def
      velocity_exceeded_def split: option.splits)

lemma session_default_agrees:
  assumes "sv_sessionValidDefault sv"
  shows "eval_Evaluate sv ec (req\<lparr>rq_SessionValid := b\<rparr>) ev = eval_Evaluate sv ec req ev"
proof (cases "sv_caps sv")
  case None
  then have "evaluate_body sv ec (req\<lparr>rq_SessionValid := b\<rparr>) ev = evaluate_body sv ec req ev" by (simp add: evaluate_body_def)
  then show ?thesis unfolding eval_Evaluate_def by (simp only: session_flag_irrelevant)
next
  case (Some caps)
  have auth: "req_auth sv caps (req\<lparr>rq_SessionValid := b\<rparr>) = req_auth sv caps req"
    using assms by (simp add: req_auth_def session_flag_irrelevant)
  have vd: "eval_verdict sv ec caps (req\<lparr>rq_SessionValid := b\<rparr>) ev = eval_verdict sv ec caps req ev"
    unfolding eval_verdict_def by (simp only: auth session_flag_irrelevant)
  have vel: "velocity_after sv ec caps (req\<lparr>rq_SessionValid := b\<rparr>) ev = velocity_after sv ec caps req ev"
    unfolding velocity_after_def Let_def by (simp add: auth session_flag_irrelevant split: option.splits)
  have "evaluate_body sv ec (req\<lparr>rq_SessionValid := b\<rparr>) ev = evaluate_body sv ec req ev"
    unfolding evaluate_body_verdict [OF Some] act_on_def session_flag_irrelevant vd vel ..
  then show ?thesis unfolding eval_Evaluate_def by (simp only: session_flag_irrelevant)
qed

text \<open>
  C39: Both transports give the same answer to the same request as long as sessions are valid by default, that
  is without authentication. With authentication enabled the gRPC transport, which never marks a session as
  valid, answers every request with deny and the reason invalid_session.
\<close>
theorem grpc_session:
  assumes "grpc_Evaluate (Some sv) ec req ev = (GResponse p, ev')"
  shows "(sv_sessionValidDefault sv \<longrightarrow>
        (\<exists>resp. eval_Evaluate sv ec ((evaluateRequestFromProto req)\<lparr>rq_SessionValid := True\<rparr>) ev = (Return resp None, ev')
           \<and> p = evaluateResponseToProto resp))
     \<and> (\<not> sv_sessionValidDefault sv \<longrightarrow> pr_Decision p = ''deny'' \<and> pr_Reasons p = [''invalid_session''])"
proof -
  from assms obtain resp where run: "eval_Evaluate sv ec (evaluateRequestFromProto req) ev = (Return resp None, ev')"
    and p: "p = evaluateResponseToProto resp"
    by (auto simp: grpc_Evaluate_def split: prod.splits eval_outcome.splits option.splits)
  have val: "validate (evaluateRequestFromProto req) = None"
    using eval_Evaluate_invalid [OF run] by (cases "validate (evaluateRequestFromProto req)") auto
  have "rs_Decision resp = ''deny'' \<and> rs_Reasons resp = [''invalid_session'']" if no: "\<not> sv_sessionValidDefault sv"
  proof -
    from eval_Evaluate_Return [OF run val] obtain caps v st1 where
      caps: "sv_caps sv = Some caps" and v: "eval_verdict sv ec caps (evaluateRequestFromProto req) ev = Some v" and
      fin: "finalize sv ec (ei_Version (sv_engine sv) (vd_read v)) (vd_decision v) (vd_reasons v) (vd_rules v) (vd_score v)
           (toAuditReq (evaluateRequestFromProto req))
           (ev\<lparr>ev_velocity := velocity_after sv ec caps (evaluateRequestFromProto req) ev\<rparr>) = (Return resp None, st1)" .
    have a: "req_auth sv caps (evaluateRequestFromProto req) = \<lparr>AuthOK = False, AuthReason = ''invalid_session'', AuthRequires2FA = False, TwoFAPassed = False\<rparr>"
      using no by (simp add: req_auth_def evaluateRequestFromProto_def CheckSourceAuth_def)
    from v have "vd_decision v = ''deny'' \<and> vd_reasons v = [''invalid_session'']"
      by (auto simp: eval_verdict_def a Let_def)
    with finalize_Return [OF fin] show ?thesis by simp
  qed
  then show ?thesis using run p session_default_agrees [of sv ec True "evaluateRequestFromProto req" ev]
    by (simp add: evaluateResponseToProto_def)
qed

section \<open>Publishing\<close>

lemma update_new: "k \<notin> fst ` set m \<Longrightarrow> AList.update k v m = m @ [(k, v)]"
  by (induction m) auto

lemma mergeData_append:
  "distinct (map fst (dst @ src)) \<Longrightarrow> mergeData dst src = dst @ src"
proof (induction src arbitrary: dst)
  case Nil
  then show ?case by (simp add: mergeData_def)
next
  case (Cons kv src)
  obtain k v where kv: "kv = (k, v)" by (cases kv)
  have "AList.update k v dst = dst @ [(k, v)]" using Cons.prems by (intro update_new) (auto simp: kv)
  then have "mergeData dst (kv # src) = mergeData (dst @ [kv]) src" by (simp add: mergeData_def kv)
  with Cons.IH [of "dst @ [kv]"] Cons.prems show ?case by simp
qed

lemma publishBundle_Inr:
  assumes "publishBundle sha256hex marshal eng body = Inr b"
  shows "bSource b = [(''decisions.rego'', body)] \<and> bVersion b = bHash b
     \<and> bHash b = hashBundle sha256hex marshal (bSource b) (bData b)
     \<and> bData b = (case eng_bundle eng of None \<Rightarrow> [] | Some cur \<Rightarrow> mergeData [] (bData cur))"
  using assms by (auto simp: publishBundle_def eng_Bundle_def Let_def split: if_splits)

text \<open>
  Publishing the same source again returns the existing version: once a published bundle is active, publishing
  its source anew yields the same version, hash, source and data.
\<close>
theorem republish_same_version:
  assumes "publishBundle sha256hex marshal eng body = Inr b" and "eng_bundle eng = Some cur" and "distinct (map fst (bData cur))"
  shows "publishBundle sha256hex marshal (Swap opa (Some b) eng) body = Inr b"
proof -
  have b: "bSource b = [(''decisions.rego'', body)]" "bVersion b = bHash b"
     "bHash b = hashBundle sha256hex marshal (bSource b) (bData b)" "bData b = bData cur"
    using publishBundle_Inr [OF assms(1)] assms(2) mergeData_append [of "[]" "bData cur"] assms(3) by simp_all
  have "eng_bundle (Swap opa (Some b) eng) = Some b" by (auto simp: Swap_def rebuild_def split: sum.splits)
  moreover have "mergeData [] (bData b) = bData b" using assms(3) b(4) by (simp add: mergeData_append)
  moreover have "bytesTrim body \<noteq> []" using assms(1) by (auto simp: publishBundle_def)
  moreover have "b = \<lparr>bVersion = hashBundle sha256hex marshal [(''decisions.rego'', body)] (bData b),
      bHash = hashBundle sha256hex marshal [(''decisions.rego'', body)] (bData b), bSource = [(''decisions.rego'', body)], bData = bData b\<rparr>"
    using b by (cases b) simp
  ultimately show ?thesis by (simp add: publishBundle_def eng_Bundle_def)
qed

text \<open>
  C40: The rules endpoint does not check that the source compiles, and it activates the version in the database
  whether or not activation is asked for: an accepted request has made the database call in every case; with
  activation of a source that does not compile it reports success, the engine reports the new version, and
  every decision is still made by the old rules.
\<close>
theorem publish_effects:
  assumes "hq_body r = Inr body" and "bytesTrim body \<noteq> []" and "ap_engine st = Some eng" and "eng_compiler eng = Some c"
    and "as_db s = Some act"
    and "publishBundle (as_sha256hex s) (as_marshal s) eng body = Inr b"
    and "act ''default'' (bVersion b) (bHash b) body ''api'' (ap_db st) = (None, db)"
    and "publishRulesHandler s r st = (ans, st')"
  shows "(\<exists>a. ans = Some a \<and> an_status a = 201) \<and> ap_db st' = db
     \<and> (if map lower_ascii (hq_query r ''activate'') = ''true''
        then (\<exists>eng'. ap_engine st' = Some eng' \<and> eng_Version eng' = Inr (bVersion b)
           \<and> ((\<nexists>c'. compileModules (as_opa s) [(''decisions.rego'', body)] = Inr c')
                \<longrightarrow> (\<forall>input. engine_Evaluate (as_opa s) eng' input = engine_Evaluate (as_opa s) eng input)))
        else ap_engine st' = ap_engine st)"
proof -
  have src: "bSource b = [(''decisions.rego'', body)]" using publishBundle_Inr [OF assms(6)] by simp
  let ?e = "Swap (as_opa s) (Some b) eng"
  have ver: "eng_Version ?e = Inr (bVersion b)" by (auto simp: Swap_def rebuild_def eng_Version_def split: sum.splits)
  have keep: "engine_Evaluate (as_opa s) ?e input = engine_Evaluate (as_opa s) eng input"
    if no: "\<nexists>c'. compileModules (as_opa s) [(''decisions.rego'', body)] = Inr c'" for input
  proof -
    from no obtain err where "compileModules (as_opa s) (bSource b) = Inl err"
      by (cases "compileModules (as_opa s) (bSource b)") (auto simp: src)
    then have "?e = eng\<lparr>eng_bundle := Some b\<rparr>" by (simp add: Swap_def rebuild_def)
    with assms(4) show ?thesis by (simp add: engine_Evaluate_def)
  qed
  show ?thesis
    using assms ver keep by (auto simp: publishRulesHandler_def writeJSON_def Let_def)
qed

text \<open>
  A request that fails the validation of the evaluation path is answered with status 500, as if the
  server had failed, although the fault is the caller's.
\<close>
theorem validation_error_is_500:
  assumes "as_auth s = None" and "decodeJSON (js_evaluate (as_json s)) r = Some req" and "validate req \<noteq> None"
  shows "fst (evaluateHandler s cc r st) = Some (writeAppError (newAppError ''internal_error'' ''internal server error'' 500))
     \<and> snd (evaluateHandler s cc r st) = st"
proof -
  from assms(3) obtain m where m: "validate req = Some (ErrorNew m)" by (auto simp: validate_def split: if_splits)
  have "eval_Evaluate ((as_eval s)\<lparr>sv_engine := live_engine (as_opa s) (ap_engine st)\<rparr>) (cc_eval cc) (req\<lparr>rq_SessionValid := True\<rparr>) (ap_eval st)
      = (Return zero_response (Some (ErrorNew m)), ap_eval st)"
    by (simp add: eval_Evaluate_def session_flag_irrelevant m)
  then show ?thesis using assms(1,2) by (simp add: evaluateHandler_def writeError_def toAppError_def)
qed

section \<open>Instances\<close>

definition demo_json :: api_json where
  "demo_json = \<lparr>js_evaluate = (\<lambda>_. Some (demo_req\<lparr>rq_UserID := []\<rparr>)),
     js_add = (\<lambda>_. Some \<lparr>aw_UserID = ''u'', aw_Chain = ''eth'', aw_Address = ''0x2'', aw_Label = []\<rparr>),
     js_verify = (\<lambda>_. None), js_resolve = (\<lambda>_. None)\<rparr>"

text \<open>An example service; its database is the log of activated versions.\<close>

definition demo_api :: "auth_config option \<Rightarrow> (memory_counter, wl_memory, review_memory, unit, unit, audit_memory, memory_sink, string, string, string, string list) api_services" where
  "demo_api auth = \<lparr>as_eval = demo_sv allow_iface, as_review = rv_memory_ops, as_notifier = None, as_auth = auth,
     as_db = Some (\<lambda>pol ver hash src author db. (None, db @ [ver])), as_opa = demo_opa, as_sha256hex = (\<lambda>s. s), as_marshal = (\<lambda>s. s),
     as_json = demo_json, as_jwt = demo_jwt\<rparr>"

definition demo_api_st :: "(memory_counter, wl_memory, review_memory, audit_memory, memory_sink, string, string, string list) api_state" where
  "demo_api_st = \<lparr>ap_eval = demo_st\<lparr>ev_whitelist := wl_NewMemoryStore\<rparr>, ap_engine = Some (demo_engine ''allow''), ap_db = []\<rparr>"

definition demo_cc :: api_call where
  "demo_cc = \<lparr>cc_eval = demo_ec, cc_auth = 0, cc_whitelist = 7, cc_resolve = 8\<rparr>"

definition demo_http_req :: "string list \<Rightarrow> string \<Rightarrow> http_request" where
  "demo_http_req segs body = \<lparr>hq_method = ''POST'', hq_segments = segs, hq_auth = ''Bearer none.idp.x'',
     hq_query = (\<lambda>_. ''TRUE''), hq_body = Inr body\<rparr>"

theorem state_change_needs_token_witness:
  "\<exists>cl. validateBearer demo_jwt demo_auth 0 ''Bearer none.idp.x'' = Inr cl
     \<and> (HasAnyScope cl (AdminScopes demo_auth) \<or> mux_match ''POST'' [''v1'', ''policy'', ''whitelist''] = Some EvaluateRoute)"
proof -
  let ?r = "demo_http_req [''v1'', ''policy'', ''whitelist''] ''{}''"
  let ?s = "demo_api (Some demo_auth)"
  have scope: "HasAnyScope (demo_claims ''idp'') (AdminScopes demo_auth)"
    by (simp add: HasAnyScope_def demo_claims_def demo_auth_def)
  have route: "mux_match (hq_method ?r) (hq_segments ?r) = Some AddWhitelist"
    by (simp add: mux_match_def demo_http_req_def)
  have disp: "serve ?s demo_cc ?r demo_api_st = addWhitelistHandler ?s demo_cc ?r demo_api_st"
  proof -
    have "validateBearer (as_jwt ?s) demo_auth (cc_auth demo_cc) (hq_auth ?r) = Inr (demo_claims ''idp'')"
      using demo_bearer by (simp add: demo_api_def demo_cc_def demo_http_req_def)
    moreover have "as_auth ?s = Some demo_auth" by (simp add: demo_api_def)
    moreover have "dispatch ?s demo_cc ?r demo_api_st = addWhitelistHandler ?s demo_cc ?r demo_api_st"
      by (simp add: dispatch_def route)
    ultimately show ?thesis using scope by (simp add: serve_def)
  qed
  let ?st' = "snd (addWhitelistHandler ?s demo_cc ?r demo_api_st)"
  have "ev_whitelist (ap_eval ?st') (wl_key ''u'' ''eth'' ''0x2'') \<noteq> None"
    by (simp add: addWhitelistHandler_def decodeJSON_def demo_http_req_def demo_api_def demo_json_def demo_sv_def demo_api_st_def
        wl_Add_def wl_memory_defs wl_NewMemoryStore_def zero_wl_entry_def Let_def)
  moreover have "ev_whitelist (ap_eval demo_api_st) (wl_key ''u'' ''eth'' ''0x2'') = None"
    by (simp add: demo_api_st_def wl_NewMemoryStore_def)
  ultimately have changed: "?st' \<noteq> demo_api_st" by metis
  have run: "serve ?s demo_cc ?r demo_api_st = (fst (addWhitelistHandler ?s demo_cc ?r demo_api_st), ?st')"
    by (simp add: disp)
  have "as_auth ?s = Some demo_auth" "JWTIssuer demo_auth \<noteq> []" by (simp_all add: demo_api_def demo_auth_def)
  from state_change_needs_token [OF this run changed] show ?thesis
    by (simp add: demo_api_def demo_cc_def demo_http_req_def)
qed

definition demo_proto :: proto_request where
  "demo_proto = \<lparr>pq_UserId = ''u'', pq_Amount = ''2'', pq_Currency = ''USD'', pq_Asset = ''ETH'', pq_Rail = ''card'',
     pq_DestAddress = ''0x1'', pq_DestChain = ''eth'', pq_KytVerdict = ''clean'', pq_FraudScore = Fin False 0,
     pq_KycStatus = ''verified'', pq_UserTier = [], pq_Session_2FaPassed = False, pq_FxRateToUsd = Fin False 0\<rparr>"

lemma f64_lit_one: "f64_lit 1 = Fin False 1"
  using f64_lit_of_int [of 1] by simp

theorem grpc_session_witness:
  "\<exists>p ev'. grpc_Evaluate (Some (demo_sv allow_iface)) demo_ec demo_proto demo_st = (GResponse p, ev')
     \<and> pr_Decision p = ''deny'' \<and> pr_Reasons p = [''invalid_session'']"
proof -
  let ?sv = "demo_sv allow_iface" and ?req = "evaluateRequestFromProto demo_proto"
  have req: "?req = demo_req\<lparr>rq_SessionValid := False\<rparr>"
    by (simp add: evaluateRequestFromProto_def demo_proto_def demo_req_def)
  have caps: "sv_caps ?sv = Some demo_caps" by (simp add: demo_sv_def)
  have auth: "req_auth ?sv demo_caps ?req = \<lparr>AuthOK = False, AuthReason = ''invalid_session'', AuthRequires2FA = False, TwoFAPassed = False\<rparr>"
    by (simp add: req_auth_def evaluateRequestFromProto_def CheckSourceAuth_def demo_sv_def)
  have v: "eval_verdict ?sv demo_ec demo_caps ?req demo_st =
     Some \<lparr>vd_decision = ''deny'', vd_reasons = [''invalid_session''], vd_rules = [], vd_score = Fin False 1, vd_read = 0\<rparr>"
    by (simp add: eval_verdict_def auth f64_lit_one)
  have ver: "ei_Version (sv_engine ?sv) 0 = Inr (bVersion (demo_bundle ''allow''))" by (simp add: demo_sv_def opa_iface_def)
  obtain resp st1 where fin: "finalize ?sv demo_ec (Inr (bVersion (demo_bundle ''allow''))) ''deny'' [''invalid_session''] [] (Fin False 1)
      (toAuditReq ?req) (demo_st\<lparr>ev_velocity := velocity_after ?sv demo_ec demo_caps ?req demo_st\<rparr>) = (Return resp None, st1)"
    by (rule demo_finalize)
  have body: "evaluate_body ?sv demo_ec ?req demo_st = (Return resp None, st1)"
    using fin by (simp add: evaluate_body_verdict [OF caps] v act_on_def ver)
  have "validate ?req = None" using demo_validate by (simp add: req session_flag_irrelevant)
  with body have run: "grpc_Evaluate (Some ?sv) demo_ec demo_proto demo_st
      = (GResponse (evaluateResponseToProto resp), st1\<lparr>ev_metrics := observe demo_ec (ev_metrics st1)\<rparr>)"
    by (simp add: grpc_Evaluate_def eval_Evaluate_def)
  have "\<not> sv_sessionValidDefault ?sv" by (simp add: demo_sv_def)
  with grpc_session [OF run] run show ?thesis by blast
qed

lemma demo_publish:
  "publishBundle (\<lambda>s. s) (\<lambda>s. s) (demo_engine ''allow'') ''broken'' =
     Inr \<lparr>bVersion = hashBundle (\<lambda>s. s) (\<lambda>s. s) [(''decisions.rego'', ''broken'')] [],
          bHash = hashBundle (\<lambda>s. s) (\<lambda>s. s) [(''decisions.rego'', ''broken'')] [],
          bSource = [(''decisions.rego'', ''broken'')], bData = []\<rparr>"
  by (simp add: publishBundle_def eng_Bundle_def mergeData_def demo_bundle_def Let_def)

theorem republish_same_version_witness:
  "publishBundle (\<lambda>s. s) (\<lambda>s. s) (Swap demo_opa (Some \<lparr>bVersion = hashBundle (\<lambda>s. s) (\<lambda>s. s) [(''decisions.rego'', ''broken'')] [],
          bHash = hashBundle (\<lambda>s. s) (\<lambda>s. s) [(''decisions.rego'', ''broken'')] [],
          bSource = [(''decisions.rego'', ''broken'')], bData = []\<rparr>) (demo_engine ''allow'')) ''broken''
   = publishBundle (\<lambda>s. s) (\<lambda>s. s) (demo_engine ''allow'') ''broken''"
  unfolding demo_publish
  by (rule republish_same_version [OF demo_publish, of "demo_bundle ''allow''"]) (simp_all add: demo_bundle_def)

theorem publish_effects_witness:
  "let r = demo_http_req [''v1'', ''policy'', ''rules''] ''broken''; st' = snd (publishRulesHandler (demo_api None) r demo_api_st)
   in length (ap_db st') = 1
      \<and> (\<exists>eng'. ap_engine st' = Some eng' \<and> (\<forall>input. engine_Evaluate demo_opa eng' input = engine_Evaluate demo_opa (demo_engine ''allow'') input))"
proof -
  let ?r = "demo_http_req [''v1'', ''policy'', ''rules''] ''broken''" and ?s = "demo_api None"
  have lower: "map lower_ascii ''TRUE'' = ''true''" by code_simp
  have body: "hq_body ?r = Inr ''broken''" by (simp add: demo_http_req_def)
  have trim: "bytesTrim ''broken'' \<noteq> []" by simp
  have eng: "ap_engine demo_api_st = Some (demo_engine ''allow'')" by (simp add: demo_api_st_def)
  have comp: "eng_compiler (demo_engine ''allow'') = Some ''allow''" by (simp add: demo_defs)
  have db: "as_db ?s = Some (\<lambda>pol ver hash src author db. (None, db @ [ver]))" by (simp add: demo_api_def)
  have pub: "publishBundle (as_sha256hex ?s) (as_marshal ?s) (demo_engine ''allow'') ''broken'' =
     Inr \<lparr>bVersion = hashBundle (\<lambda>s. s) (\<lambda>s. s) [(''decisions.rego'', ''broken'')] [],
          bHash = hashBundle (\<lambda>s. s) (\<lambda>s. s) [(''decisions.rego'', ''broken'')] [],
          bSource = [(''decisions.rego'', ''broken'')], bData = []\<rparr>" using demo_publish by (simp add: demo_api_def)
  obtain ans st' where run: "publishRulesHandler ?s ?r demo_api_st = (ans, st')" by (cases "publishRulesHandler ?s ?r demo_api_st")
  have broken: "\<nexists>c'. compileModules (as_opa ?s) [(''decisions.rego'', ''broken'')] = Inr c'" by (simp add: demo_api_def demo_defs)
  have opa: "as_opa ?s = demo_opa" and query: "hq_query ?r ''activate'' = ''TRUE''"
    and dbst: "ap_db demo_api_st = []" by (simp_all add: demo_api_def demo_http_req_def demo_api_st_def)
  have cond: "map lower_ascii (hq_query ?r ''activate'') = ''true''" by (simp only: query lower)
  note eff = publish_effects [OF body trim eng comp db pub refl run, unfolded if_P [OF cond] opa]
  from eff broken [unfolded opa] show ?thesis by (auto simp: run dbst Let_def)
qed

theorem validation_error_is_500_witness:
  "\<exists>a. fst (evaluateHandler (demo_api None) demo_cc (demo_http_req [''v1'', ''policy'', ''evaluate''] ''{}'') demo_api_st) = Some a \<and> an_status a = 500"
proof -
  let ?r = "demo_http_req [''v1'', ''policy'', ''evaluate''] ''{}''"
  have "as_auth (demo_api None) = None" by (simp add: demo_api_def)
  moreover have "decodeJSON (js_evaluate (as_json (demo_api None))) ?r = Some (demo_req\<lparr>rq_UserID := []\<rparr>)"
    by (simp add: decodeJSON_def demo_http_req_def demo_api_def demo_json_def)
  moreover have "validate (demo_req\<lparr>rq_UserID := []\<rparr>) \<noteq> None" by (simp add: validate_def)
  ultimately have "fst (evaluateHandler (demo_api None) demo_cc ?r demo_api_st) =
      Some (writeAppError (newAppError ''internal_error'' ''internal server error'' 500))"
    by (rule validation_error_is_500 [THEN conjunct1])
  then show ?thesis by (simp add: writeAppError_def newAppError_def)
qed

end
