(* ===== verification/Grpc_Server.thy ===== *)
theory Grpc_Server
  imports Api
begin

text \<open>
  The construction of the gRPC server (\<^verbatim>\<open>NewGRPCServer\<close> and \<^verbatim>\<open>buildServerTLSConfig\<close> of \<^verbatim>\<open>internal/api/grpc.go\<close>):
  with a client CA configured the server demands verified client certificates or does not start. Listening, reading
  files and parsing certificates are parameters; a listener that was opened before an error is closed again.
\<close>

datatype client_auth = NoClientCert | RequireAndVerifyClientCert

record ('p, 'c) tls_config =
  tls_ClientCAs :: 'p
  tls_ClientAuth :: client_auth
  tls_MinVersion :: nat
  tls_Certificates :: "'c list"

abbreviation "VersionTLS12 \<equiv> 0x0303 :: nat"

record ('p, 'c) tls_lib =
  tl_ReadFile :: "string \<Rightarrow> string result"
  tl_AppendCertsFromPEM :: "string \<Rightarrow> 'p option"
  tl_LoadX509KeyPair :: "string \<Rightarrow> string \<Rightarrow> 'c result"
  tl_Listen :: "string \<Rightarrow> gerror option"

definition buildServerTLSConfig :: "('p, 'c) tls_lib \<Rightarrow> env \<Rightarrow> string \<Rightarrow> ('p, 'c) tls_config result" where
  "buildServerTLSConfig lib getenv caCertPath =
     (case tl_ReadFile lib caCertPath of
        Inl err \<Rightarrow> Inl (Errorf ''read ca cert: '' err)
      | Inr caPEM \<Rightarrow>
          (case tl_AppendCertsFromPEM lib caPEM of
             None \<Rightarrow> Inl (ErrorNew ''failed to parse ca cert'')
           | Some pool \<Rightarrow>
               let cfg = \<lparr>tls_ClientCAs = pool, tls_ClientAuth = RequireAndVerifyClientCert, tls_MinVersion = VersionTLS12, tls_Certificates = []\<rparr>;
                   certPath = getenv ''SERVER_TLS_CERT'';
                   keyPath = getenv ''SERVER_TLS_KEY''
               in if certPath = [] then Inr cfg
                  else if keyPath = [] then Inl (ErrorNew ''SERVER_TLS_CERT set but SERVER_TLS_KEY missing'')
                  else case tl_LoadX509KeyPair lib certPath keyPath of
                         Inl err \<Rightarrow> Inl (Errorf ''load server keypair: '' err)
                       | Inr cert \<Rightarrow> Inr (cfg\<lparr>tls_Certificates := [cert]\<rparr>)))"

text \<open>The result is the credentials of the server, \<open>None\<close> for a server without TLS; the flag says whether the port stays open.\<close>

definition NewGRPCServer :: "('p, 'c) tls_lib \<Rightarrow> env \<Rightarrow> string \<Rightarrow> ('p, 'c) tls_config option result \<times> bool" where
  "NewGRPCServer lib getenv grpcPort =
     (case tl_Listen lib ('':'' @ grpcPort) of
        Some err \<Rightarrow> (Inl (Errorf ''grpc listen: '' err), False)
      | None \<Rightarrow>
          let caCertPath = getenv ''MTLS_CA_CERT''
          in if caCertPath = [] then (Inr None, True)
             else case buildServerTLSConfig lib getenv caCertPath of
                    Inl err \<Rightarrow> (Inl (Errorf ''grpc mtls: '' err), False)
                  | Inr tlsCfg \<Rightarrow> (Inr (Some tlsCfg), True))"

text \<open>
  A gRPC server that starts with a client CA configured accepts only clients with a certificate verified
  against that CA, over TLS 1.2 or later; the server's own key pair is loaded exactly when a certificate is
  configured. Without a client CA it starts without TLS. The port is held open exactly when the server starts.
\<close>
theorem grpc_mtls_enforced:
  assumes "NewGRPCServer lib getenv port = (Inr creds, held)"
  shows "held \<and> (creds = None \<longleftrightarrow> getenv ''MTLS_CA_CERT'' = [])
    \<and> (\<forall>cfg. creds = Some cfg \<longrightarrow> tls_ClientAuth cfg = RequireAndVerifyClientCert \<and> VersionTLS12 \<le> tls_MinVersion cfg
         \<and> (\<exists>pem. tl_ReadFile lib (getenv ''MTLS_CA_CERT'') = Inr pem \<and> tl_AppendCertsFromPEM lib pem = Some (tls_ClientCAs cfg))
         \<and> (tls_Certificates cfg = [] \<longleftrightarrow> getenv ''SERVER_TLS_CERT'' = []))"
  using assms
  by (auto simp: NewGRPCServer_def buildServerTLSConfig_def Let_def split: option.splits sum.splits if_splits)

definition demo_tls :: "(string, string) tls_lib" where
  "demo_tls = \<lparr>tl_ReadFile = Inr, tl_AppendCertsFromPEM = Some, tl_LoadX509KeyPair = (\<lambda>c k. Inr c), tl_Listen = (\<lambda>_. None)\<rparr>"

theorem grpc_mtls_enforced_witness:
  "\<exists>cfg. fst (NewGRPCServer demo_tls (\<lambda>k. if k = ''MTLS_CA_CERT'' then ''ca.pem'' else []) ''9090'') = Inr (Some cfg)
     \<and> tls_ClientAuth cfg = RequireAndVerifyClientCert"
proof -
  have "NewGRPCServer demo_tls (\<lambda>k. if k = ''MTLS_CA_CERT'' then ''ca.pem'' else []) ''9090''
    = (Inr (Some \<lparr>tls_ClientCAs = ''ca.pem'', tls_ClientAuth = RequireAndVerifyClientCert, tls_MinVersion = VersionTLS12, tls_Certificates = []\<rparr>), True)"
    by (simp add: NewGRPCServer_def buildServerTLSConfig_def demo_tls_def Let_def)
  with grpc_mtls_enforced [OF this] show ?thesis by simp
qed

end
