(* ===== verification/Background.thy ===== *)
theory Background
  imports Engine
begin

text \<open>
  The goroutines of the poller and of the hot reloader (\<^verbatim>\<open>Start\<close>, \<^verbatim>\<open>Stop\<close> and \<^verbatim>\<open>run\<close> of \<^verbatim>\<open>bundlepoll.go\<close> and
  \<^verbatim>\<open>hotreload.go\<close>): a loop that makes one round per tick until the context is cancelled or the stop channel is
  closed. When several channels are ready the loop may choose any of them, so a round can still happen after
  \<^verbatim>\<open>Stop\<close> has been called, but none after \<^verbatim>\<open>Stop\<close> has returned.
\<close>

section \<open>The loop\<close>

record 'h ticker_loop =
  tl_work :: 'h
  tl_stopCh :: bool
  tl_ctxDone :: bool
  tl_stoppedCh :: bool

definition loop_Start :: "'h \<Rightarrow> 'h ticker_loop" where
  "loop_Start h = \<lparr>tl_work = h, tl_stopCh = False, tl_ctxDone = False, tl_stoppedCh = False\<rparr>"

text \<open>\<^verbatim>\<open>time.NewTicker\<close> panics for an interval that is not positive; in a goroutine this ends the process.\<close>

definition loop_run :: "duration \<Rightarrow> 'h \<Rightarrow> 'h ticker_loop option" where
  "loop_run interval h = (if sint interval \<le> 0 then None else Some (loop_Start h))"

inductive loop_step :: "('h \<Rightarrow> 'h \<Rightarrow> bool) \<Rightarrow> 'h ticker_loop \<Rightarrow> 'h ticker_loop \<Rightarrow> bool" for round_of where
  Ticked: "\<not> tl_stoppedCh l \<Longrightarrow> round_of (tl_work l) h \<Longrightarrow> loop_step round_of l (l\<lparr>tl_work := h\<rparr>)"
| StopCalled: "loop_step round_of l (l\<lparr>tl_stopCh := True\<rparr>)"
| Cancelled: "loop_step round_of l (l\<lparr>tl_ctxDone := True\<rparr>)"
| LoopReturned: "\<not> tl_stoppedCh l \<Longrightarrow> tl_stopCh l \<or> tl_ctxDone l \<Longrightarrow> loop_step round_of l (l\<lparr>tl_stoppedCh := True\<rparr>)"

inductive_cases loop_stepE: "loop_step round_of l l'"

text \<open>\<^verbatim>\<open>Stop\<close> returns once the loop has closed the stopped channel.\<close>

definition Stop_returns :: "'h ticker_loop \<Rightarrow> bool" where
  "Stop_returns l \<longleftrightarrow> tl_stopCh l \<and> tl_stoppedCh l"

definition reload_round :: "(string \<Rightarrow> string) \<Rightarrow> ('d, 'm, 'c) opa \<Rightarrow> ('d, 'c) hot_reloader \<Rightarrow> ('d, 'c) hot_reloader \<Rightarrow> bool" where
  "reload_round sha256hex opa h h' \<longleftrightarrow> (\<exists>client. reloadOnce sha256hex opa client h = Inr h')"

text \<open>A round of the poller hands the bundle to its callback, which logs it, and changes nothing.\<close>

definition poll_round :: "(string \<Rightarrow> string) \<Rightarrow> ('d, 'c) poller \<Rightarrow> ('d, 'c) poller \<Rightarrow> bool" where
  "poll_round sha256hex p p' \<longleftrightarrow> p' = p \<and> (\<exists>client b. pollOnce sha256hex client p = Inr b)"

section \<open>What every loop does\<close>

lemma loop_keeps:
  assumes "(loop_step round_of)\<^sup>*\<^sup>* l l'" and "P (tl_work l)" and "\<And>h h'. P h \<Longrightarrow> round_of h h' \<Longrightarrow> P h'"
  shows "P (tl_work l')"
  using assms by (induction rule: rtranclp_induct) (auto elim!: loop_stepE)

lemma loop_stopped_keeps:
  assumes "(loop_step round_of)\<^sup>*\<^sup>* l l'" and "tl_stoppedCh l"
  shows "tl_stoppedCh l' \<and> tl_work l' = tl_work l"
  using assms by (induction rule: rtranclp_induct) (auto elim!: loop_stepE)

lemma loop_stopped_cause:
  assumes "(loop_step round_of)\<^sup>*\<^sup>* (loop_Start h) l"
  shows "tl_stoppedCh l \<longrightarrow> tl_stopCh l \<or> tl_ctxDone l"
  using assms by (induction rule: rtranclp_induct) (auto simp: loop_Start_def elim!: loop_stepE)

text \<open>
  A loop ends only when asked to, can always end once it is asked, and after \<^verbatim>\<open>Stop\<close> has returned never makes
  another round.
\<close>
theorem loop_stops:
  assumes "(loop_step round_of)\<^sup>*\<^sup>* (loop_Start h) l"
  shows "(tl_stoppedCh l \<longrightarrow> tl_stopCh l \<or> tl_ctxDone l)
    \<and> (tl_stopCh l \<longrightarrow> (\<exists>l'. (loop_step round_of)\<^sup>*\<^sup>* l l' \<and> Stop_returns l'))
    \<and> (\<forall>l'. Stop_returns l \<and> (loop_step round_of)\<^sup>*\<^sup>* l l' \<longrightarrow> tl_work l' = tl_work l)"
proof -
  have "\<exists>l'. (loop_step round_of)\<^sup>*\<^sup>* l l' \<and> Stop_returns l'" if "tl_stopCh l"
  proof (cases "tl_stoppedCh l")
    case True
    with that show ?thesis by (auto simp: Stop_returns_def)
  next
    case False
    with that have "loop_step round_of l (l\<lparr>tl_stoppedCh := True\<rparr>)" by (intro LoopReturned) simp_all
    with that show ?thesis by (intro exI [of _ "l\<lparr>tl_stoppedCh := True\<rparr>"]) (simp add: Stop_returns_def r_into_rtranclp)
  qed
  moreover have "tl_work l' = tl_work l" if "Stop_returns l" "(loop_step round_of)\<^sup>*\<^sup>* l l'" for l'
    using loop_stopped_keeps [OF that(2)] that(1) by (simp add: Stop_returns_def)
  ultimately show ?thesis using loop_stopped_cause [OF assms] by blast
qed

theorem loop_stops_witness:
  "\<exists>l'. (loop_step (\<lambda>h h'. h' = Suc h))\<^sup>*\<^sup>* (loop_Start 0) l' \<and> Stop_returns l'"
proof -
  let ?r = "\<lambda>h h'. h' = Suc h"
  let ?l = "(loop_Start 0)\<lparr>tl_stopCh := True\<rparr>"
  have run: "(loop_step ?r)\<^sup>*\<^sup>* (loop_Start 0) ?l" by (rule r_into_rtranclp) (rule StopCalled)
  moreover have "tl_stopCh ?l" by simp
  ultimately obtain l' where "(loop_step ?r)\<^sup>*\<^sup>* ?l l'" and ret: "Stop_returns l'" using loop_stops [OF run] by blast
  with run have "(loop_step ?r)\<^sup>*\<^sup>* (loop_Start 0) l'" by simp
  with ret show ?thesis by blast
qed

section \<open>The reloader and the poller\<close>

text \<open>An interval of the environment that is zero or negative is used as it is, although the ticker does not accept it.\<close>

lemma poll_interval_not_positive:
  assumes "getenv key \<noteq> []" and "Atoi (getenv key) = (n, None)" and "- 9000000000 \<le> n" and "n \<le> 0"
  shows "loop_run (poll_interval getenv key 0) h = None"
proof -
  have "sint (word_of_int (n * 1000000000) :: 64 word) = n * 1000000000"
    using assms(3,4) by (intro sint_word_of_int_i64) simp_all
  moreover have "poll_interval getenv key 0 = word_of_int (n * 1000000000)"
    using assms(1,2) by (simp add: poll_interval_def engine_envInt_def Let_def)
  ultimately show ?thesis using assms(4) by (simp add: loop_run_def)
qed

lemma reload_round_ok: "reload_ok opa b0 h \<Longrightarrow> reload_round sha256hex opa h h' \<Longrightarrow> reload_ok opa b0 h'"
  using reloadOnce_ok [of opa b0 h sha256hex] by (auto simp: reload_round_def) (metis sum.inject(2))

lemma reload_loop_ok:
  assumes "(loop_step (reload_round sha256hex opa))\<^sup>*\<^sup>* (loop_Start (NewHotReloader opa getenv url interval (Some (NewOPAEngine opa (Some b0))))) l"
  shows "reload_ok opa b0 (tl_work l)"
proof (rule loop_keeps [OF assms])
  show "reload_ok opa b0 (tl_work (loop_Start (NewHotReloader opa getenv url interval (Some (NewOPAEngine opa (Some b0))))))"
    by (auto simp: reload_ok_def NewHotReloader_def loop_Start_def)
  show "reload_ok opa b0 h'" if "reload_ok opa b0 h" "reload_round sha256hex opa h h'" for h h'
    using that by (rule reload_round_ok)
qed

lemma poll_loop_const:
  assumes "(loop_step (poll_round sha256hex))\<^sup>*\<^sup>* (loop_Start p) l"
  shows "tl_work l = p"
  using assms by (rule loop_keeps) (simp_all add: loop_Start_def poll_round_def)

end
