(* ===== verification/Remote.thy ===== *)
theory Remote
  imports Go_Prelude
begin

text \<open>
  Commands sent to a server (PostgreSQL, Redis). A command may be refused, or it may be executed while its
  reply is lost, so that the caller sees an error and the change is made all the same.
\<close>

datatype fault = NoFault | Refused gerror | ReplyLost gerror

definition exec :: "fault \<Rightarrow> ('s \<Rightarrow> ('a \<times> 's) result) \<Rightarrow> 's \<Rightarrow> 'a result \<times> 's" where
  "exec f stmt db =
     (case f of
        NoFault \<Rightarrow> (case stmt db of Inl err \<Rightarrow> (Inl err, db) | Inr (r, db') \<Rightarrow> (Inr r, db'))
      | Refused err \<Rightarrow> (Inl err, db)
      | ReplyLost err \<Rightarrow> (case stmt db of Inl err' \<Rightarrow> (Inl err, db) | Inr (r, db') \<Rightarrow> (Inl err, db')))"

definition query :: "fault \<Rightarrow> 'a \<Rightarrow> 'a result" where
  "query f rows = (case f of NoFault \<Rightarrow> Inr rows | Refused err \<Rightarrow> Inl err | ReplyLost err \<Rightarrow> Inl err)"

lemma exec_cases:
  assumes "exec f stmt db = (r, db')"
  obtains (undone) "isl r" and "db' = db"
    | (executed) x where "stmt db = Inr (x, db')" and "isl r \<or> r = Inr x"
  using assms by (auto simp: exec_def split: fault.splits sum.splits)

lemma exec_keeps:
  assumes "P db" and "\<And>x db'. stmt db = Inr (x, db') \<Longrightarrow> P db'"
  shows "P (snd (exec f stmt db))"
  using assms by (auto simp: exec_def split: fault.splits sum.splits)

end
