(* ===== verification/Postgres.thy ===== *)
theory Postgres
  imports Remote Whitelist Review Audit_Log
begin

text \<open>
  Package \<^verbatim>\<open>internal/db\<close>: the stores of the whitelist, of the review queue and of the audit log on PostgreSQL, and
  the activation of policy versions.

  The database is the record \<open>pg\<close> of the five tables of \<^verbatim>\<open>migrations/000001_init.up.sql\<close>, with the columns the
  code reads; the statements are functions on it that check the constraints the schema declares (primary
  keys, the unique keys, the foreign keys, the range of the integer column). What the server adds to a call is in \<open>pg_env\<close>:
  the outcome of each statement, by a number that tells the statements of a call apart (it may be refused, or executed with its reply lost), the identifiers
  generated for it, the rounding of times to the resolution of \<^verbatim>\<open>timestamptz\<close>, and the order in which rows
  without a declared order are returned.
\<close>

unbundle bit_operations_syntax

section \<open>Tables\<close>

type_synonym uuid = "128 word"

abbreviation "uuid_Nil \<equiv> 0 :: uuid"

record policy_row =
  po_id :: uuid
  po_scope :: string
  po_active :: "uuid option"

record version_row =
  pv_id :: uuid
  pv_policy :: uuid
  pv_version :: int
  pv_hash :: string
  pv_source :: string
  pv_created_by :: string

record decision_row =
  pd_id :: string
  pd_version :: uuid
  pd_request_hash :: string
  pd_decision :: string
  pd_reasons :: "string list"
  pd_rules :: "string list"
  pd_score :: f64
  pd_signature :: "string option"
  pd_created :: gotime

record whitelist_row =
  pw_id :: uuid
  pw_user :: string
  pw_chain :: string
  pw_address :: string
  pw_label :: "string option"
  pw_verified :: "gotime option"
  pw_status :: string
  pw_created :: gotime

record review_row =
  pr_id :: uuid
  pr_decision :: string
  pr_tx :: "string option"
  pr_status :: string
  pr_assigned :: "string option"
  pr_created :: gotime
  pr_resolved :: "gotime option"
  pr_resolution :: "string option"

record pg =
  policies :: "policy_row list"
  policy_versions :: "version_row list"
  policy_decisions :: "decision_row list"
  whitelist_addresses :: "whitelist_row list"
  review_queue :: "review_row list"

definition pg_empty :: pg where
  "pg_empty = \<lparr>policies = [], policy_versions = [], policy_decisions = [], whitelist_addresses = [], review_queue = []\<rparr>"

section \<open>Statements and their outcomes\<close>

record pg_env =
  pe_fault :: "nat \<Rightarrow> fault"
  pe_uuid :: "nat \<Rightarrow> uuid"
  pe_micros :: "gotime \<Rightarrow> gotime"
  pe_scan :: "nat \<Rightarrow> nat list"

text \<open>Inside a transaction only the commit takes effect when its reply is lost.\<close>

definition tx_exec :: "fault \<Rightarrow> ('s \<Rightarrow> ('a \<times> 's) result) \<Rightarrow> 's \<Rightarrow> ('a \<times> 's) result" where
  "tx_exec f stmt db = (case f of NoFault \<Rightarrow> stmt db | Refused err \<Rightarrow> Inl err | ReplyLost err \<Rightarrow> Inl err)"

definition tx_commit :: "fault \<Rightarrow> 's \<Rightarrow> 's \<Rightarrow> gerror option \<times> 's" where
  "tx_commit f work db = (case f of NoFault \<Rightarrow> (None, work) | Refused err \<Rightarrow> (Some err, db) | ReplyLost err \<Rightarrow> (Some err, work))"

text \<open>The rows of a query in the order the server returns them: a permutation of the rows (the storage order if the index list is not one).\<close>

definition scan :: "pg_env \<Rightarrow> 'a list \<Rightarrow> 'a list" where
  "scan env rows =
     (let is = pe_scan env (length rows) in if sort is = [0..<length rows] then map (\<lambda>i. rows ! i) is else rows)"

abbreviation pgUniqueViolation :: string where
  "pgUniqueViolation \<equiv> ''23505''"

abbreviation pgForeignKeyViolation :: string where
  "pgForeignKeyViolation \<equiv> ''23503''"

abbreviation pgNumericOutOfRange :: string where
  "pgNumericOutOfRange \<equiv> ''22003''"

text \<open>The error of the driver with an SQLSTATE code.\<close>

definition pqError :: "string \<Rightarrow> gerror" where
  "pqError code = Sentinel (''pq.'' @ code)"

fun isUniqueViolation :: "gerror \<Rightarrow> bool" where
  "isUniqueViolation (Errorf msg err) \<longleftrightarrow> isUniqueViolation err"
| "isUniqueViolation err \<longleftrightarrow> err = pqError pgUniqueViolation"

definition nullableText :: "string \<Rightarrow> string option" where
  "nullableText s = (if s = [] then None else Some s)"

definition nullableTime :: "gotime \<Rightarrow> gotime option" where
  "nullableTime t = (if IsZero t then None else Some t)"

definition nullableTimePtr :: "gotime option \<Rightarrow> gotime option" where
  "nullableTimePtr t = (case t of None \<Rightarrow> None | Some t \<Rightarrow> if IsZero t then None else Some t)"

definition NullString :: "string option \<Rightarrow> string" where
  "NullString s = (case s of None \<Rightarrow> [] | Some t \<Rightarrow> t)"

definition exec_err :: "unit result \<Rightarrow> gerror option" where
  "exec_err r = (case r of Inl err \<Rightarrow> Some err | Inr _ \<Rightarrow> None)"

section \<open>The whitelist store\<close>

definition insert_whitelist :: "whitelist_row \<Rightarrow> pg \<Rightarrow> (unit \<times> pg) result" where
  "insert_whitelist row db =
     (if list_ex (\<lambda>r. pw_id r = pw_id row \<or> pw_user r = pw_user row \<and> pw_chain r = pw_chain row \<and> pw_address r = pw_address row)
           (whitelist_addresses db)
      then Inl (pqError pgUniqueViolation)
      else Inr ((), db\<lparr>whitelist_addresses := whitelist_addresses db @ [row]\<rparr>))"

definition pg_wl_Add :: "pg_env \<Rightarrow> wl_entry \<Rightarrow> pg \<Rightarrow> gerror option \<times> pg" where
  "pg_wl_Add env e db =
     (let row = \<lparr>pw_id = pe_uuid env 0, pw_user = wl_UserID e, pw_chain = wl_Chain e, pw_address = wl_Address e,
                 pw_label = nullableText (wl_Label e), pw_verified = map_option (pe_micros env) (nullableTime (wl_VerifiedAt e)),
                 pw_status = wl_Status e, pw_created = pe_micros env (wl_CreatedAt e)\<rparr>
      in case exec (pe_fault env 0) (insert_whitelist row) db of
           (Inl err, db') \<Rightarrow> (Some (if isUniqueViolation err then wl_ErrDuplicate else err), db')
         | (Inr _, db') \<Rightarrow> (None, db'))"

definition scanWhitelistRow :: "whitelist_row \<Rightarrow> wl_entry" where
  "scanWhitelistRow r =
     \<lparr>wl_UserID = pw_user r, wl_Chain = pw_chain r, wl_Address = pw_address r, wl_Label = NullString (pw_label r),
      wl_Status = pw_status r, wl_VerifiedAt = (case pw_verified r of Some t \<Rightarrow> t | None \<Rightarrow> 0), wl_CreatedAt = pw_created r\<rparr>"

definition pg_wl_List :: "pg_env \<Rightarrow> string \<Rightarrow> pg \<Rightarrow> wl_entry list result" where
  "pg_wl_List env userID db =
     (case query (pe_fault env 3) (sort_key pw_created (scan env (filter (\<lambda>r. pw_user r = userID) (whitelist_addresses db)))) of
        Inl err \<Rightarrow> Inl err
      | Inr rows \<Rightarrow> Inr (map scanWhitelistRow rows))"

definition pg_wl_Get :: "pg_env \<Rightarrow> string \<Rightarrow> string \<Rightarrow> string \<Rightarrow> pg \<Rightarrow> wl_entry option result" where
  "pg_wl_Get env userID chain address db =
     (case query (pe_fault env 1)
             (find (\<lambda>r. pw_user r = userID \<and> pw_chain r = chain \<and> pw_address r = address) (whitelist_addresses db)) of
        Inl err \<Rightarrow> Inl err
      | Inr row \<Rightarrow> Inr (map_option scanWhitelistRow row))"

definition update_whitelist :: "(whitelist_row \<Rightarrow> bool) \<Rightarrow> (whitelist_row \<Rightarrow> whitelist_row) \<Rightarrow> pg \<Rightarrow> (nat \<times> pg) result" where
  "update_whitelist sel upd db =
     Inr (length (filter sel (whitelist_addresses db)),
          db\<lparr>whitelist_addresses := map (\<lambda>r. if sel r then upd r else r) (whitelist_addresses db)\<rparr>)"

definition pg_wl_Update :: "pg_env \<Rightarrow> wl_entry \<Rightarrow> pg \<Rightarrow> gerror option \<times> pg" where
  "pg_wl_Update env e db =
     (case exec (pe_fault env 2)
             (update_whitelist (\<lambda>r. pw_user r = wl_UserID e \<and> pw_chain r = wl_Chain e \<and> pw_address r = wl_Address e)
                (\<lambda>r. r\<lparr>pw_label := nullableText (wl_Label e), pw_verified := map_option (pe_micros env) (nullableTime (wl_VerifiedAt e)),
                       pw_status := wl_Status e\<rparr>)) db of
        (Inl err, db') \<Rightarrow> (Some err, db')
      | (Inr n, db') \<Rightarrow> (if n = 0 then Some wl_ErrNotFound else None, db'))"

definition pg_wl_ops :: "pg_env \<Rightarrow> pg wl_store_ops" where
  "pg_wl_ops env = \<lparr>wlStoreAdd = pg_wl_Add env, wlStoreList = pg_wl_List env, wlStoreGet = pg_wl_Get env, wlStoreUpdate = pg_wl_Update env\<rparr>"

section \<open>The review store\<close>

text \<open>The table has no unique key on the decision, so an insert fails on its identifier or on the reference to the decision only.\<close>

definition insert_review :: "review_row \<Rightarrow> pg \<Rightarrow> (unit \<times> pg) result" where
  "insert_review row db =
     (if list_ex (\<lambda>r. pr_id r = pr_id row) (review_queue db) then Inl (pqError pgUniqueViolation)
      else if \<not> list_ex (\<lambda>d. pd_id d = pr_decision row) (policy_decisions db) then Inl (pqError pgForeignKeyViolation)
      else Inr ((), db\<lparr>review_queue := review_queue db @ [row]\<rparr>))"

definition review_row_of :: "pg_env \<Rightarrow> review_item \<Rightarrow> review_row" where
  "review_row_of env item =
     \<lparr>pr_id = pe_uuid env 0, pr_decision = rv_DecisionID item, pr_tx = nullableText (rv_TxID item), pr_status = rv_Status item,
      pr_assigned = nullableText (rv_AssignedTo item), pr_created = pe_micros env (rv_CreatedAt item),
      pr_resolved = map_option (pe_micros env) (nullableTimePtr (rv_ResolvedAt item)), pr_resolution = nullableText (rv_Resolution item)\<rparr>"

definition pg_rv_Put :: "pg_env \<Rightarrow> review_item \<Rightarrow> pg \<Rightarrow> gerror option \<times> pg" where
  "pg_rv_Put env item db =
     (case exec (pe_fault env 0) (insert_review (review_row_of env item)) db of
        (Inl err, db') \<Rightarrow> (Some (if isUniqueViolation err then rv_ErrDuplicate else err), db')
      | (Inr _, db') \<Rightarrow> (None, db'))"

definition scanReviewRow :: "review_row \<Rightarrow> review_item" where
  "scanReviewRow r =
     \<lparr>rv_DecisionID = pr_decision r, rv_TxID = NullString (pr_tx r), rv_Status = pr_status r, rv_AssignedTo = NullString (pr_assigned r),
      rv_CreatedAt = pr_created r, rv_ResolvedAt = pr_resolved r, rv_Resolution = NullString (pr_resolution r)\<rparr>"

definition pg_rv_Get :: "pg_env \<Rightarrow> string \<Rightarrow> pg \<Rightarrow> review_item option result" where
  "pg_rv_Get env decisionID db =
     (case query (pe_fault env 1) (scan env (filter (\<lambda>r. pr_decision r = decisionID) (review_queue db))) of
        Inl err \<Rightarrow> Inl err
      | Inr [] \<Rightarrow> Inr None
      | Inr (row # _) \<Rightarrow> Inr (Some (scanReviewRow row)))"

definition pg_rv_List :: "pg_env \<Rightarrow> string \<Rightarrow> pg \<Rightarrow> review_item list result" where
  "pg_rv_List env status db =
     (case (if status = [] then query (pe_fault env 3) (sort_key pr_created (scan env (review_queue db)))
            else query (pe_fault env 3) (sort_key pr_created (scan env (filter (\<lambda>r. pr_status r = status) (review_queue db))))) of
        Inl err \<Rightarrow> Inl err
      | Inr rows \<Rightarrow> Inr (map scanReviewRow rows))"

definition update_review :: "(review_row \<Rightarrow> bool) \<Rightarrow> (review_row \<Rightarrow> review_row) \<Rightarrow> pg \<Rightarrow> (nat \<times> pg) result" where
  "update_review sel upd db =
     Inr (length (filter sel (review_queue db)), db\<lparr>review_queue := map (\<lambda>r. if sel r then upd r else r) (review_queue db)\<rparr>)"

definition pg_rv_Update :: "pg_env \<Rightarrow> review_item \<Rightarrow> pg \<Rightarrow> gerror option \<times> pg" where
  "pg_rv_Update env item db =
     (case exec (pe_fault env 2)
             (update_review (\<lambda>r. pr_decision r = rv_DecisionID item)
                (\<lambda>r. r\<lparr>pr_status := rv_Status item, pr_assigned := nullableText (rv_AssignedTo item),
                       pr_resolved := map_option (pe_micros env) (nullableTimePtr (rv_ResolvedAt item)),
                       pr_resolution := nullableText (rv_Resolution item)\<rparr>)) db of
        (Inl err, db') \<Rightarrow> (Some err, db')
      | (Inr n, db') \<Rightarrow> (if n = 0 then Some rv_ErrNotFound else None, db'))"

definition pg_rv_ops :: "pg_env \<Rightarrow> pg review_store_ops" where
  "pg_rv_ops env = \<lparr>rvStorePut = pg_rv_Put env, rvStoreGet = pg_rv_Get env, rvStoreList = pg_rv_List env, rvStoreUpdate = pg_rv_Update env\<rparr>"

section \<open>Policies and their versions\<close>

definition fnv1a :: "string \<Rightarrow> u32" where
  "fnv1a s = fold (\<lambda>c h. (h XOR of_nat (of_char c)) * 16777619) s 2166136261"

definition versionToInt :: "string \<Rightarrow> int result" where
  "versionToInt version =
     (case Atoi version of
        (n, None) \<Rightarrow> Inr n
      | (_, Some _) \<Rightarrow> Inr (uint (fnv1a version mod 9000000) + 1000000))"

definition insert_policy :: "policy_row \<Rightarrow> pg \<Rightarrow> (unit \<times> pg) result" where
  "insert_policy row db =
     (if list_ex (\<lambda>p. po_id p = po_id row) (policies db) then Inl (pqError pgUniqueViolation)
      else Inr ((), db\<lparr>policies := policies db @ [row]\<rparr>))"

definition ensurePolicy :: "pg_env \<Rightarrow> string \<Rightarrow> pg \<Rightarrow> (uuid \<times> pg) result" where
  "ensurePolicy env scope db =
     (case query (pe_fault env 1) (scan env (filter (\<lambda>p. po_scope p = scope) (policies db))) of
        Inl err \<Rightarrow> Inl (Errorf ''lookup policy: '' err)
      | Inr (p # _) \<Rightarrow> Inr (po_id p, db)
      | Inr [] \<Rightarrow>
          let id = pe_uuid env 0
          in case tx_exec (pe_fault env 2) (insert_policy \<lparr>po_id = id, po_scope = scope, po_active = None\<rparr>) db of
               Inl err \<Rightarrow> Inl (Errorf ''insert policy: '' err)
             | Inr (_, db') \<Rightarrow> Inr (id, db'))"

text \<open>The insert with its conflict clause returns the identifier of the row that is there afterwards.\<close>

definition upsert_version :: "version_row \<Rightarrow> pg \<Rightarrow> (uuid \<times> pg) result" where
  "upsert_version row db =
     (let same = (\<lambda>v. pv_policy v = pv_policy row \<and> pv_version v = pv_version row)
      in if \<not> (- (2 ^ 31) \<le> pv_version row \<and> pv_version row < 2 ^ 31) then Inl (pqError pgNumericOutOfRange)
         else case find same (policy_versions db) of
                Some v \<Rightarrow>
                  Inr (pv_id v, db\<lparr>policy_versions := map (\<lambda>v. if same v then v\<lparr>pv_hash := pv_hash row\<rparr> else v) (policy_versions db)\<rparr>)
              | None \<Rightarrow>
                  if list_ex (\<lambda>v. pv_id v = pv_id row) (policy_versions db) then Inl (pqError pgUniqueViolation)
                  else if \<not> list_ex (\<lambda>p. po_id p = pv_policy row) (policies db) then Inl (pqError pgForeignKeyViolation)
                  else Inr (pv_id row, db\<lparr>policy_versions := policy_versions db @ [row]\<rparr>))"

definition set_active :: "uuid \<Rightarrow> uuid \<Rightarrow> pg \<Rightarrow> (unit \<times> pg) result" where
  "set_active vid policyID db =
     (if list_ex (\<lambda>p. po_id p = policyID) (policies db) \<and> \<not> list_ex (\<lambda>v. pv_id v = vid) (policy_versions db)
      then Inl (pqError pgForeignKeyViolation)
      else Inr ((), db\<lparr>policies := map (\<lambda>p. if po_id p = policyID then p\<lparr>po_active := Some vid\<rparr> else p) (policies db)\<rparr>))"

definition ensurePolicyVersion :: "pg_env \<Rightarrow> uuid \<Rightarrow> string \<Rightarrow> string \<Rightarrow> string \<Rightarrow> string \<Rightarrow> pg \<Rightarrow> (uuid \<times> pg) result" where
  "ensurePolicyVersion env policyID version regoHash regoSource createdBy db =
     (case versionToInt version of
        Inl err \<Rightarrow> Inl (Errorf (''parse version '' @ version @ '': '') err)
      | Inr versionInt \<Rightarrow>
          (case tx_exec (pe_fault env 3)
                  (upsert_version \<lparr>pv_id = pe_uuid env 1, pv_policy = policyID, pv_version = versionInt, pv_hash = regoHash,
                     pv_source = regoSource, pv_created_by = createdBy\<rparr>) db of
             Inl err \<Rightarrow> Inl (Errorf ''ensure policy_version: '' err)
           | Inr (existingID, db1) \<Rightarrow>
               (case tx_exec (pe_fault env 4) (set_active existingID policyID) db1 of
                  Inl err \<Rightarrow> Inl (Errorf ''set active_version: '' err)
                | Inr (_, db2) \<Rightarrow> Inr (existingID, db2))))"

text \<open>Both callers run the two steps in one transaction: what they change becomes visible with the commit only.\<close>

definition ActivatePolicyVersion ::
  "pg_env \<Rightarrow> string \<Rightarrow> string \<Rightarrow> string \<Rightarrow> string \<Rightarrow> string \<Rightarrow> pg option \<Rightarrow> uuid result \<times> pg option" where
  "ActivatePolicyVersion env scope version regoHash regoSource createdBy database =
     (case database of
        None \<Rightarrow> (Inl (ErrorNew ''db is required''), database)
      | Some db \<Rightarrow>
          if version = [] then (Inl (ErrorNew ''version is required''), database)
          else case query (pe_fault env 0) () of
                 Inl err \<Rightarrow> (Inl (Errorf ''begin tx: '' err), database)
               | Inr _ \<Rightarrow>
          (case ensurePolicy env scope db of
             Inl err \<Rightarrow> (Inl err, database)
           | Inr (policyID, db1) \<Rightarrow>
          (case ensurePolicyVersion env policyID version regoHash regoSource createdBy db1 of
             Inl err \<Rightarrow> (Inl err, database)
           | Inr (vid, db2) \<Rightarrow>
          (case tx_exec (pe_fault env 5) (set_active vid policyID) db2 of
             Inl err \<Rightarrow> (Inl (Errorf ''set active_version: '' err), database)
           | Inr (_, db3) \<Rightarrow>
          (case tx_commit (pe_fault env 6) db3 db of
             (Some err, db') \<Rightarrow> (Inl (Errorf ''commit: '' err), Some db')
           | (None, db') \<Rightarrow> (Inr vid, Some db'))))))"

abbreviation ErrNoActiveVersion :: gerror where
  "ErrNoActiveVersion \<equiv> Sentinel ''no active policy version''"

definition parseVersionInt :: "string \<Rightarrow> int" where
  "parseVersionInt s =
     (case Atoi s of
        (n, None) \<Rightarrow> n
      | (_, Some _) \<Rightarrow> (case versionToInt s of Inr v \<Rightarrow> v | Inl _ \<Rightarrow> 0))"

definition GetActiveVersion :: "pg_env \<Rightarrow> pg option \<Rightarrow> string \<Rightarrow> (string \<times> string) result" where
  "GetActiveVersion env database scope =
     (case database of
        None \<Rightarrow> Inl (ErrorNew ''db is required'')
      | Some db \<Rightarrow>
          (case query (pe_fault env 0)
                  (scan env (List.map_filter
                     (\<lambda>p. case po_active p of None \<Rightarrow> None | Some vid \<Rightarrow> find (\<lambda>v. pv_id v = vid) (policy_versions db))
                     (filter (\<lambda>p. po_scope p = scope) (policies db)))) of
             Inl err \<Rightarrow> Inl (Errorf ''get active version: '' err)
           | Inr [] \<Rightarrow> Inl ErrNoActiveVersion
           | Inr (v # _) \<Rightarrow> Inr (Itoa (parseVersionInt (Itoa (pv_version v))), pv_hash v)))"

section \<open>The audit store\<close>

record pg_audit =
  pa_policyVersionID :: uuid
  pa_db :: pg

definition pg_NewAuditStore :: "pg \<Rightarrow> pg_audit" where
  "pg_NewAuditStore db = \<lparr>pa_policyVersionID = uuid_Nil, pa_db = db\<rparr>"

definition EnsurePolicyVersion :: "pg_env \<Rightarrow> string \<Rightarrow> string \<Rightarrow> string \<Rightarrow> string \<Rightarrow> pg_audit \<Rightarrow> gerror option \<times> pg_audit" where
  "EnsurePolicyVersion env version regoHash regoSource createdBy s =
     (if version = [] then (Some (ErrorNew ''policy version is required''), s)
      else if pa_policyVersionID s \<noteq> uuid_Nil then (None, s)
      else case query (pe_fault env 0) () of
             Inl err \<Rightarrow> (Some (Errorf ''begin tx: '' err), s)
           | Inr _ \<Rightarrow>
          (case ensurePolicy env ''default'' (pa_db s) of
             Inl err \<Rightarrow> (Some err, s)
           | Inr (policyID, db1) \<Rightarrow>
          (case ensurePolicyVersion env policyID version regoHash regoSource createdBy db1 of
             Inl err \<Rightarrow> (Some err, s)
           | Inr (vid, db2) \<Rightarrow>
          (case tx_commit (pe_fault env 5) db2 (pa_db s) of
             (Some err, db') \<Rightarrow> (Some (Errorf ''commit: '' err), s\<lparr>pa_db := db'\<rparr>)
           | (None, db') \<Rightarrow> (None, s\<lparr>pa_db := db', pa_policyVersionID := vid\<rparr>)))))"

definition insert_decision :: "decision_row \<Rightarrow> pg \<Rightarrow> (unit \<times> pg) result" where
  "insert_decision row db =
     (if list_ex (\<lambda>d. pd_id d = pd_id row) (policy_decisions db) then Inl (pqError pgUniqueViolation)
      else if \<not> list_ex (\<lambda>v. pv_id v = pd_version row) (policy_versions db) then Inl (pqError pgForeignKeyViolation)
      else Inr ((), db\<lparr>policy_decisions := policy_decisions db @ [row]\<rparr>))"

definition decision_row_of :: "pg_env \<Rightarrow> uuid \<Rightarrow> decision_record \<Rightarrow> decision_row" where
  "decision_row_of env vid rec =
     \<lparr>pd_id = dr_DecisionID rec, pd_version = vid, pd_request_hash = dr_RequestHash rec, pd_decision = dr_Decision rec,
      pd_reasons = dr_Reasons rec, pd_rules = dr_AppliedRules rec, pd_score = dr_Score rec,
      pd_signature = nullableText (dr_Signature rec), pd_created = pe_micros env (dr_CreatedAt rec)\<rparr>"

definition pg_au_Put :: "pg_env \<Rightarrow> decision_record \<Rightarrow> pg_audit \<Rightarrow> gerror option \<times> pg_audit" where
  "pg_au_Put env rec s =
     (if dr_DecisionID rec = [] then (Some (ErrorNew ''decision_id required''), s)
      else if pa_policyVersionID s = uuid_Nil then (Some (ErrorNew ''EnsurePolicyVersion must be called before Put''), s)
      else case exec (pe_fault env 0) (insert_decision (decision_row_of env (pa_policyVersionID s) rec)) (pa_db s) of
             (Inl err, db') \<Rightarrow> (Some (if isUniqueViolation err then ErrDuplicateDecision else err), s\<lparr>pa_db := db'\<rparr>)
           | (Inr _, db') \<Rightarrow> (None, s\<lparr>pa_db := db'\<rparr>))"

definition scanDecisionRow :: "decision_row \<Rightarrow> version_row \<Rightarrow> decision_record" where
  "scanDecisionRow d v =
     \<lparr>dr_DecisionID = pd_id d, dr_PolicyVersion = Itoa (pv_version v), dr_RequestHash = pd_request_hash d, dr_Decision = pd_decision d,
      dr_Reasons = pd_reasons d, dr_AppliedRules = pd_rules d, dr_Score = pd_score d, dr_CreatedAt = pd_created d,
      dr_Signature = NullString (pd_signature d)\<rparr>"

definition pg_au_Get :: "pg_env \<Rightarrow> string \<Rightarrow> pg_audit \<Rightarrow> decision_record option result" where
  "pg_au_Get env decisionID s =
     (case query (pe_fault env 1) (find (\<lambda>d. pd_id d = decisionID) (policy_decisions (pa_db s))) of
        Inl err \<Rightarrow> Inl err
      | Inr None \<Rightarrow> Inr None
      | Inr (Some d) \<Rightarrow> Inr (map_option (scanDecisionRow d) (find (\<lambda>v. pv_id v = pd_version d) (policy_versions (pa_db s)))))"

definition pg_au_ops :: "pg_env \<Rightarrow> pg_audit audit_store_ops" where
  "pg_au_ops env = \<lparr>as_Put = pg_au_Put env, as_Get = pg_au_Get env\<rparr>"

section \<open>The whitelist store keeps the contract\<close>

definition pw_key :: "whitelist_row \<Rightarrow> string \<times> string \<times> string" where
  "pw_key r = (pw_user r, pw_chain r, pw_address r)"

definition pg_wl_view :: "pg \<Rightarrow> string \<times> string \<times> string \<rightharpoonup> wl_entry" where
  "pg_wl_view db k = map_option scanWhitelistRow (find (\<lambda>r. pw_key r = k) (whitelist_addresses db))"

lemma find_snoc: "find P (xs @ [x]) = (case find P xs of Some y \<Rightarrow> Some y | None \<Rightarrow> if P x then Some x else None)"
  by (induction xs) auto

lemma find_map_key:
  assumes "\<And>r. key (upd r) = key r"
  shows "find (\<lambda>r. key r = k) (map (\<lambda>r. if key r = k0 then upd r else r) rs)
    = (if k = k0 then map_option upd (find (\<lambda>r. key r = k) rs) else find (\<lambda>r. key r = k) rs)"
  using assms by (induction rs) auto

lemma pg_wl_sel: "pw_user r = u \<and> pw_chain r = c \<and> pw_address r = a \<longleftrightarrow> pw_key r = (u, c, a)"
  by (simp add: pw_key_def)

lemma insert_whitelist_view:
  assumes "insert_whitelist row db = Inr (x, db')"
  shows "pg_wl_view db (pw_key row) = None \<and> pg_wl_view db' = (pg_wl_view db)(pw_key row \<mapsto> scanWhitelistRow row)"
proof -
  from assms have db': "db' = db\<lparr>whitelist_addresses := whitelist_addresses db @ [row]\<rparr>"
    and "list_all (\<lambda>r. pw_key r \<noteq> pw_key row) (whitelist_addresses db)"
    by (auto simp: insert_whitelist_def pw_key_def list_ex_iff list_all_iff split: if_splits)
  then have "find (\<lambda>r. pw_key r = pw_key row) (whitelist_addresses db) = None"
    by (auto simp: find_None_iff list_all_iff)
  then show ?thesis
    by (auto simp: pg_wl_view_def db' find_snoc fun_eq_iff split: option.splits)
qed

lemma pg_wl_Add_view:
  assumes "pg_wl_Add env e db = (err, db')"
  shows "err \<noteq> None \<and> pg_wl_view db' = pg_wl_view db
    \<or> pg_wl_view db (wl_UserID e, wl_Chain e, wl_Address e) = None
      \<and> (\<exists>e'. pg_wl_view db' = (pg_wl_view db)((wl_UserID e, wl_Chain e, wl_Address e) \<mapsto> e') \<and> entry_kept e' e)"
proof -
  let ?row = "\<lparr>pw_id = pe_uuid env 0, pw_user = wl_UserID e, pw_chain = wl_Chain e, pw_address = wl_Address e,
     pw_label = nullableText (wl_Label e), pw_verified = map_option (pe_micros env) (nullableTime (wl_VerifiedAt e)),
     pw_status = wl_Status e, pw_created = pe_micros env (wl_CreatedAt e)\<rparr>"
  obtain r db1 where ex: "exec (pe_fault env 0) (insert_whitelist ?row) db = (r, db1)"
    by (cases "exec (pe_fault env 0) (insert_whitelist ?row) db")
  with assms have [simp]: "db' = db1" and err: "err \<noteq> None \<longleftrightarrow> isl r"
    by (auto simp: pg_wl_Add_def Let_def split: sum.splits)
  have kept: "entry_kept (scanWhitelistRow ?row) e"
    by (simp add: entry_kept_def scanWhitelistRow_def)
  have key: "pw_key ?row = (wl_UserID e, wl_Chain e, wl_Address e)"
    by (simp add: pw_key_def)
  from ex show ?thesis
  proof (cases rule: exec_cases)
    case (executed x)
    from insert_whitelist_view [OF executed(1)] kept key show ?thesis by auto
  qed (use err in simp)
qed

lemma pg_wl_Update_view:
  assumes "pg_wl_Update env e db = (err, db')"
  shows "err \<noteq> None \<and> pg_wl_view db' = pg_wl_view db
    \<or> (\<exists>e'. pg_wl_view db' = (pg_wl_view db)((wl_UserID e, wl_Chain e, wl_Address e) \<mapsto> e') \<and> entry_kept e' e)"
proof -
  let ?k = "(wl_UserID e, wl_Chain e, wl_Address e)"
  let ?upd = "\<lambda>r. r\<lparr>pw_label := nullableText (wl_Label e), pw_verified := map_option (pe_micros env) (nullableTime (wl_VerifiedAt e)),
     pw_status := wl_Status e\<rparr>"
  let ?stmt = "update_whitelist (\<lambda>r. pw_key r = ?k) ?upd"
  obtain r db1 where ex: "exec (pe_fault env 2) ?stmt db = (r, db1)" by (cases "exec (pe_fault env 2) ?stmt db")
  with assms have [simp]: "db' = db1" and err: "err \<noteq> None \<longleftrightarrow> isl r \<or> r = Inr 0"
    by (auto simp: pg_wl_Update_def pg_wl_sel split: sum.splits if_splits)
  from ex show ?thesis
  proof (cases rule: exec_cases)
    case (executed n)
    have fm: "find (\<lambda>r. pw_key r = k) (map (\<lambda>r. if pw_key r = ?k then ?upd r else r) (whitelist_addresses db))
        = (if k = ?k then map_option ?upd (find (\<lambda>r. pw_key r = k) (whitelist_addresses db)) else find (\<lambda>r. pw_key r = k) (whitelist_addresses db))" for k
      by (rule find_map_key) (simp add: pw_key_def)
    from executed(1) have db1: "whitelist_addresses db1 = map (\<lambda>r. if pw_key r = ?k then ?upd r else r) (whitelist_addresses db)"
      by (auto simp: update_whitelist_def)
    have v: "pg_wl_view db1 k = (if k = ?k then map_option scanWhitelistRow (map_option ?upd (find (\<lambda>r. pw_key r = k) (whitelist_addresses db)))
        else pg_wl_view db k)" for k
      unfolding pg_wl_view_def db1 fm by simp
    from executed(1) have n: "n = length (filter (\<lambda>r. pw_key r = ?k) (whitelist_addresses db))"
      by (simp add: update_whitelist_def)
    show ?thesis
    proof (cases "find (\<lambda>r. pw_key r = ?k) (whitelist_addresses db)")
      case None
      then have "n = 0" by (simp add: n find_None_iff filter_empty_conv)
      with executed(2) err have "err \<noteq> None" by auto
      moreover have "pg_wl_view db1 = pg_wl_view db"
        by (rule ext) (simp add: v None, simp add: pg_wl_view_def None)
      ultimately show ?thesis by simp
    next
      case (Some row)
      then have "pw_key row = ?k" by (auto simp: find_Some_iff)
      then have "entry_kept (scanWhitelistRow (?upd row)) e"
        by (simp add: entry_kept_def scanWhitelistRow_def pw_key_def)
      moreover have "pg_wl_view db1 = (pg_wl_view db)(?k \<mapsto> scanWhitelistRow (?upd row))"
        by (rule ext) (simp add: v Some)
      ultimately show ?thesis by auto
    qed
  qed (use err in simp)
qed

interpretation pgw: whitelist_store pg_wl_ops "\<lambda>u c a. (u, c, a)" pg_wl_view
proof (unfold_locales, goal_cases)
  case (1 i u c a s r)
  then show ?case
    by (auto simp: pg_wl_ops_def pg_wl_Get_def pg_wl_view_def pw_key_def query_def split: fault.splits)
next
  case (2 i e s err s')
  then show ?case using pg_wl_Add_view [of i e s err s'] by (simp add: pg_wl_ops_def)
next
  case (3 i e s err s')
  then show ?case using pg_wl_Update_view [of i e s err s'] by (simp add: pg_wl_ops_def)
qed

text \<open>
  C14: On the database an address counts as whitelisted only after it was added and then verified for exactly
  this user and this chain, whatever statements fail and whatever replies are lost in the run, and with
  no condition on the texts, as the unique key of the table separates the three columns.
\<close>
theorem pg_whitelisted_exact:
  assumes "whitelist_addresses db = []"
    and "IsWhitelisted (pg_wl_ops env) u c a (wl_runs pg_wl_ops evs db)"
  shows "\<exists>xs ys zs now l now'. map snd evs = xs @ WLAdd now u c a l # ys @ WLVerify now' u c a # zs"
proof -
  have empty: "pg_wl_view db = Map.empty" using assms(1) by (simp add: fun_eq_iff pg_wl_view_def)
  then have "pgw.placed db" by (simp add: pgw.placed_def)
  from pgw.verified_by_run [OF this empty pgw.IsWhitelisted_verified [OF assms(2)]]
  show ?thesis by auto
qed

section \<open>Instances\<close>

definition demo_pg_env :: "nat \<Rightarrow> pg_env" where
  "demo_pg_env k = \<lparr>pe_fault = (\<lambda>_. NoFault), pe_uuid = (\<lambda>i. of_nat (10 * k + i + 1)), pe_micros = (\<lambda>t. t div 1000 * 1000), pe_scan = (\<lambda>n. [0..<n])\<rparr>"

abbreviation (input) pg_wl_two :: "(pg_env \<times> wl_event) list" where
  "pg_wl_two \<equiv> [(demo_pg_env 0, WLAdd 1 ''u'' ''eth'' ''0x1'' []), (demo_pg_env 1, WLVerify 2000 ''u'' ''eth'' ''0x1'')]"

theorem pg_whitelisted_exact_witness:
  "\<exists>xs ys zs now l now'. map snd pg_wl_two = xs @ WLAdd now ''u'' ''eth'' ''0x1'' l # ys @ WLVerify now' ''u'' ''eth'' ''0x1'' # zs"
proof (rule pg_whitelisted_exact)
  show "whitelist_addresses pg_empty = []" by (simp add: pg_empty_def)
  show "IsWhitelisted (pg_wl_ops (demo_pg_env 2)) ''u'' ''eth'' ''0x1'' (wl_runs pg_wl_ops pg_wl_two pg_empty)"
    by code_simp
qed

end
