(* ===== verification/Pg_Runs.thy ===== *)
theory Pg_Runs
  imports Postgres
begin

text \<open>
  The service on PostgreSQL as a transition system: decisions are recorded by \<^verbatim>\<open>audit.Emit\<close> with synchronous
  persistence, manual reviews are parked after a successful emission as in \<^verbatim>\<open>evaluate.finalize\<close>, reviews are
  resolved, addresses whitelisted, policy versions ensured and activated, all on one database and with any
  statement failing or losing its reply. Shown of every reachable state: the integrity of the tables, one
  review per decision, and that recorded decisions and resolved reviews never change.
\<close>

section \<open>Integrity of the tables\<close>

definition keys_ok :: "pg \<Rightarrow> bool" where
  "keys_ok db \<longleftrightarrow>
     distinct (map po_id (policies db)) \<and> distinct (map pv_id (policy_versions db))
     \<and> distinct (map (\<lambda>v. (pv_policy v, pv_version v)) (policy_versions db)) \<and> distinct (map pd_id (policy_decisions db))
     \<and> distinct (map pw_id (whitelist_addresses db)) \<and> distinct (map pw_key (whitelist_addresses db))
     \<and> distinct (map pr_id (review_queue db))"

definition refs_ok :: "pg \<Rightarrow> bool" where
  "refs_ok db \<longleftrightarrow>
     (\<forall>p \<in> set (policies db). \<forall>vid. po_active p = Some vid \<longrightarrow> vid \<in> pv_id ` set (policy_versions db))
     \<and> (\<forall>v \<in> set (policy_versions db). pv_policy v \<in> po_id ` set (policies db) \<and> pv_version v \<in> {- (2 ^ 31)..<2 ^ 31})
     \<and> (\<forall>d \<in> set (policy_decisions db). pd_version d \<in> pv_id ` set (policy_versions db))
     \<and> (\<forall>r \<in> set (review_queue db). pr_decision r \<in> pd_id ` set (policy_decisions db))"

definition pg_ok :: "pg \<Rightarrow> bool" where
  "pg_ok db \<longleftrightarrow> keys_ok db \<and> refs_ok db"

lemmas pg_ok_defs = pg_ok_def keys_ok_def refs_ok_def

definition one_review :: "pg \<Rightarrow> bool" where
  "one_review db \<longleftrightarrow> distinct (map pr_decision (review_queue db))"

lemma tx_exec_keeps:
  assumes "tx_exec f stmt db = Inr (x, db')"
  shows "stmt db = Inr (x, db')"
  using assms by (auto simp: tx_exec_def split: fault.splits)

lemma list_ex_key: "list_ex (\<lambda>r. key r = k) rs \<longleftrightarrow> k \<in> key ` set rs"
  by (auto simp: list_ex_iff)

lemma image_keep: "(\<And>r. key (f r) = key r) \<Longrightarrow> key ` f ` A = key ` A"
  by (simp add: image_image)

lemma insert_decision_ok:
  assumes "pg_ok db" and "insert_decision row db = Inr (x, db')"
  shows "pg_ok db' \<and> review_queue db' = review_queue db \<and> policy_decisions db' = policy_decisions db @ [row] \<and> pd_id row \<notin> pd_id ` set (policy_decisions db)"
proof -
  from assms(2) have "db' = db\<lparr>policy_decisions := policy_decisions db @ [row]\<rparr>"
    and "pd_id row \<notin> pd_id ` set (policy_decisions db)" and "pd_version row \<in> pv_id ` set (policy_versions db)"
    unfolding insert_decision_def list_ex_key by (simp_all split: if_splits)
  with assms(1) show ?thesis by (simp add: pg_ok_defs)
qed

lemma insert_review_ok:
  assumes "pg_ok db" and "insert_review row db = Inr (x, db')"
  shows "pg_ok db' \<and> review_queue db' = review_queue db @ [row] \<and> policy_decisions db' = policy_decisions db"
proof -
  from assms(2) have "db' = db\<lparr>review_queue := review_queue db @ [row]\<rparr>"
    and "pr_id row \<notin> pr_id ` set (review_queue db)" and "pr_decision row \<in> pd_id ` set (policy_decisions db)"
    unfolding insert_review_def list_ex_key by (simp_all split: if_splits)
  with assms(1) show ?thesis by (simp add: pg_ok_defs)
qed

lemma update_review_ok:
  assumes "pg_ok db" and "update_review sel upd db = Inr (x, db')"
    and "\<And>r. pr_id (upd r) = pr_id r \<and> pr_decision (upd r) = pr_decision r"
  shows "pg_ok db' \<and> policy_decisions db' = policy_decisions db \<and> review_queue db' = map (\<lambda>r. if sel r then upd r else r) (review_queue db)"
proof -
  define f where "f = (\<lambda>r. if sel r then upd r else r)"
  have [simp]: "pr_id (f r) = pr_id r" "pr_decision (f r) = pr_decision r" for r using assms(3) by (simp_all add: f_def)
  from assms(2) have "db' = db\<lparr>review_queue := map f (review_queue db)\<rparr>" by (simp add: update_review_def f_def)
  with assms(1) show ?thesis by (simp add: pg_ok_defs comp_def f_def [symmetric])
qed

lemma insert_whitelist_ok:
  assumes "pg_ok db" and "insert_whitelist row db = Inr (x, db')"
  shows "pg_ok db' \<and> review_queue db' = review_queue db \<and> policy_decisions db' = policy_decisions db"
proof -
  from assms(2) have "pw_id row \<notin> pw_id ` set (whitelist_addresses db) \<and> pw_key row \<notin> pw_key ` set (whitelist_addresses db)"
    and "db' = db\<lparr>whitelist_addresses := whitelist_addresses db @ [row]\<rparr>"
    by (auto simp: insert_whitelist_def pw_key_def list_ex_iff split: if_splits)
  with assms(1) show ?thesis by (auto simp: pg_ok_defs)
qed

lemma update_whitelist_ok:
  assumes "pg_ok db" and "update_whitelist sel upd db = Inr (x, db')"
    and "\<And>r. pw_id (upd r) = pw_id r \<and> pw_key (upd r) = pw_key r"
  shows "pg_ok db' \<and> review_queue db' = review_queue db \<and> policy_decisions db' = policy_decisions db"
proof -
  define f where "f = (\<lambda>r. if sel r then upd r else r)"
  have [simp]: "pw_id (f r) = pw_id r" "pw_key (f r) = pw_key r" for r using assms(3) by (simp_all add: f_def)
  from assms(2) have "db' = db\<lparr>whitelist_addresses := map f (whitelist_addresses db)\<rparr>" by (simp add: update_whitelist_def f_def)
  with assms(1) show ?thesis by (simp add: pg_ok_defs comp_def)
qed

lemma insert_policy_ok:
  assumes "pg_ok db" and "insert_policy row db = Inr (x, db')" and "po_active row = None"
  shows "pg_ok db' \<and> review_queue db' = review_queue db \<and> policy_decisions db' = policy_decisions db"
  using assms by (auto simp: pg_ok_defs insert_policy_def list_ex_key split: if_splits)

lemma upsert_version_ok:
  assumes "pg_ok db" and "upsert_version row db = Inr (vid, db')"
  shows "pg_ok db' \<and> review_queue db' = review_queue db \<and> policy_decisions db' = policy_decisions db \<and> vid \<in> pv_id ` set (policy_versions db')"
proof (cases "find (\<lambda>v. pv_policy v = pv_policy row \<and> pv_version v = pv_version row) (policy_versions db)")
  case None
  with assms(2) have "db' = db\<lparr>policy_versions := policy_versions db @ [row]\<rparr>" and "vid = pv_id row"
    and "pv_id row \<notin> pv_id ` set (policy_versions db)" and "pv_policy row \<in> po_id ` set (policies db)"
    and "pv_version row \<in> {- (2 ^ 31)..<2 ^ 31}"
    unfolding upsert_version_def Let_def list_ex_key by (simp_all split: if_splits)
  moreover from None have "(pv_policy row, pv_version row) \<notin> (\<lambda>v. (pv_policy v, pv_version v)) ` set (policy_versions db)"
    by (auto simp: find_None_iff)
  ultimately show ?thesis using assms(1) by (simp add: pg_ok_defs)
next
  case (Some v)
  define f where "f = (\<lambda>v :: version_row. if pv_policy v = pv_policy row \<and> pv_version v = pv_version row then v\<lparr>pv_hash := pv_hash row\<rparr> else v)"
  from Some assms(2) have db': "db' = db\<lparr>policy_versions := map f (policy_versions db)\<rparr>" and vid: "vid = pv_id v"
    unfolding f_def by (auto simp: upsert_version_def Let_def split: if_splits)
  have [simp]: "pv_id (f v) = pv_id v" "pv_policy (f v) = pv_policy v" "pv_version (f v) = pv_version v" for v
    by (simp_all add: f_def)
  from Some have "v \<in> set (policy_versions db)" by (auto simp: find_Some_iff)
  then show ?thesis
    using assms(1) by (simp add: pg_ok_defs db' vid image_keep comp_def)
qed

lemma set_active_ok:
  assumes "pg_ok db" and "set_active vid pid db = Inr (x, db')"
  shows "pg_ok db' \<and> review_queue db' = review_queue db \<and> policy_decisions db' = policy_decisions db"
proof -
  define f where "f = (\<lambda>p :: policy_row. if po_id p = pid then p\<lparr>po_active := Some vid\<rparr> else p)"
  from assms(2) have db': "db' = db\<lparr>policies := map f (policies db)\<rparr>"
    and vid: "pid \<in> po_id ` set (policies db) \<Longrightarrow> vid \<in> pv_id ` set (policy_versions db)"
    unfolding set_active_def list_ex_key f_def by (simp_all split: if_splits)
  have [simp]: "po_id (f p) = po_id p" for p by (simp add: f_def)
  have "po_active (f p) = Some u \<Longrightarrow> p \<in> set (policies db) \<Longrightarrow> u \<in> pv_id ` set (policy_versions db)" for p u
    using assms(1) vid by (auto simp: f_def pg_ok_defs split: if_splits)
  with assms(1) show ?thesis
    by (simp add: pg_ok_defs db' image_keep comp_def)
qed

section \<open>Operations outside the review queue and the decisions\<close>

definition pg_frame :: "pg \<Rightarrow> pg \<Rightarrow> bool" where
  "pg_frame db db' \<longleftrightarrow> pg_ok db' \<and> review_queue db' = review_queue db \<and> policy_decisions db' = policy_decisions db"

lemma pg_frame_refl [simp]: "pg_frame db db \<longleftrightarrow> pg_ok db"
  by (simp add: pg_frame_def)

lemma pg_frame_trans: "pg_frame db1 db2 \<Longrightarrow> pg_frame db2 db3 \<Longrightarrow> pg_frame db1 db3"
  by (simp add: pg_frame_def)

lemma ensurePolicy_frame:
  assumes "pg_ok db" and "ensurePolicy env scope db = Inr (pid, db')"
  shows "pg_frame db db'"
  using assms insert_policy_ok [OF assms(1)]
  by (fastforce simp: ensurePolicy_def Let_def pg_frame_def query_def split: fault.splits list.splits sum.splits dest!: tx_exec_keeps)

lemma ensurePolicyVersion_frame:
  assumes ok: "pg_ok db" and call: "ensurePolicyVersion env pid v h src by' db = Inr (vid, db')"
  shows "pg_frame db db'"
proof -
  from call obtain row db1 where up: "upsert_version row db = Inr (vid, db1)" and act: "set_active vid pid db1 = Inr ((), db')"
    by (auto simp: ensurePolicyVersion_def split: sum.splits dest!: tx_exec_keeps)
  from upsert_version_ok [OF ok up] have "pg_frame db db1" by (simp add: pg_frame_def)
  moreover from upsert_version_ok [OF ok up] set_active_ok [OF _ act] have "pg_frame db1 db'" by (simp add: pg_frame_def)
  ultimately show ?thesis by (rule pg_frame_trans)
qed

lemma ActivatePolicyVersion_frame:
  assumes ok: "pg_ok db" and call: "ActivatePolicyVersion env scope v h src by' (Some db) = (r, Some db')"
  shows "pg_frame db db'"
proof (cases "db' = db")
  case False
  with call obtain pid db1 vid db2 where p: "ensurePolicy env scope db = Inr (pid, db1)"
    and v: "ensurePolicyVersion env pid v h src by' db1 = Inr (vid, db2)" and act: "set_active vid pid db2 = Inr ((), db')"
    by (auto simp: ActivatePolicyVersion_def tx_commit_def split: if_splits sum.splits fault.splits dest!: tx_exec_keeps)
  from ensurePolicy_frame [OF ok p] have f1: "pg_frame db db1" .
  from f1 ensurePolicyVersion_frame [OF _ v] have f2: "pg_frame db1 db2" by (simp add: pg_frame_def)
  from f2 set_active_ok [OF _ act] have "pg_frame db2 db'" by (simp add: pg_frame_def)
  with f1 f2 show ?thesis by (blast intro: pg_frame_trans)
qed (simp add: ok)

lemma EnsurePolicyVersion_frame:
  assumes ok: "pg_ok (pa_db s)" and call: "EnsurePolicyVersion env v h src by' s = (r, s')"
  shows "pg_frame (pa_db s) (pa_db s')"
proof (cases "pa_db s' = pa_db s")
  case False
  with call obtain pid db1 vid where p: "ensurePolicy env ''default'' (pa_db s) = Inr (pid, db1)"
    and v: "ensurePolicyVersion env pid v h src by' db1 = Inr (vid, pa_db s')"
    by (auto simp: EnsurePolicyVersion_def tx_commit_def split: if_splits sum.splits fault.splits)
  from ensurePolicy_frame [OF ok p] have f1: "pg_frame (pa_db s) db1" .
  from f1 ensurePolicyVersion_frame [OF _ v] have "pg_frame db1 (pa_db s')" by (simp add: pg_frame_def)
  with f1 show ?thesis by (blast intro: pg_frame_trans)
qed (simp add: ok)

lemma pg_wl_Add_frame:
  assumes "pg_ok db"
  shows "pg_frame db (snd (pg_wl_Add env e db))"
proof -
  define row where "row = \<lparr>pw_id = pe_uuid env 0, pw_user = wl_UserID e, pw_chain = wl_Chain e, pw_address = wl_Address e,
     pw_label = nullableText (wl_Label e), pw_verified = map_option (pe_micros env) (nullableTime (wl_VerifiedAt e)),
     pw_status = wl_Status e, pw_created = pe_micros env (wl_CreatedAt e)\<rparr>"
  have "snd (pg_wl_Add env e db) = snd (exec (pe_fault env 0) (insert_whitelist row) db)"
    unfolding pg_wl_Add_def Let_def row_def [symmetric] by (simp split: prod.splits sum.splits)
  moreover have "pg_frame db (snd (exec (pe_fault env 0) (insert_whitelist row) db))"
    by (rule exec_keeps) (use assms insert_whitelist_ok [OF assms] in \<open>auto simp: pg_frame_def\<close>)
  ultimately show ?thesis by simp
qed

lemma pg_wl_Update_frame:
  assumes "pg_ok db"
  shows "pg_frame db (snd (pg_wl_Update env e db))"
proof -
  define sel where "sel = (\<lambda>r :: whitelist_row. pw_user r = wl_UserID e \<and> pw_chain r = wl_Chain e \<and> pw_address r = wl_Address e)"
  define upd :: "whitelist_row \<Rightarrow> whitelist_row" where
    "upd = (\<lambda>r. r\<lparr>pw_label := nullableText (wl_Label e), pw_verified := map_option (pe_micros env) (nullableTime (wl_VerifiedAt e)),
       pw_status := wl_Status e\<rparr>)"
  have "snd (pg_wl_Update env e db) = snd (exec (pe_fault env 2) (update_whitelist sel upd) db)"
    unfolding pg_wl_Update_def sel_def [symmetric] upd_def [symmetric] by (simp split: prod.splits sum.splits)
  moreover have "pw_id (upd r) = pw_id r \<and> pw_key (upd r) = pw_key r" for r by (simp add: upd_def pw_key_def)
  then have up: "pg_frame db db'" if "update_whitelist sel upd db = Inr (n, db')" for n db'
    using update_whitelist_ok [OF assms that] by (simp add: pg_frame_def)
  have "pg_frame db (snd (exec (pe_fault env 2) (update_whitelist sel upd) db))"
    by (rule exec_keeps [where P = "pg_frame db"]) (simp add: assms, erule up)
  ultimately show ?thesis by simp
qed

lemma wl_Verify_effect:
  "snd (wl_Verify ops now u c a s) = s \<or> (\<exists>e. snd (wl_Verify ops now u c a s) = snd (wlStoreUpdate ops e s))"
proof (cases "wlStoreGet ops u c a s")
  case (Inr r)
  then show ?thesis
    by (cases r) (auto simp: wl_Verify_def Let_def split: option.splits prod.splits intro: exI [where x = "the r\<lparr>wl_Status := wl_StatusVerified, wl_VerifiedAt := now\<rparr>"])
qed (simp add: wl_Verify_def)

lemma wl_step_frame:
  assumes "pg_ok db"
  shows "pg_frame db (wl_step (pg_wl_ops env) ev db)"
proof (cases ev)
  case (WLAdd now u c a l)
  let ?e = "zero_wl_entry\<lparr>wl_UserID := u, wl_Chain := c, wl_Address := a, wl_Label := l, wl_Status := wl_StatusPending, wl_CreatedAt := now\<rparr>"
  have "snd (wl_Add (pg_wl_ops env) now u c a l db) \<in> {db, snd (pg_wl_Add env ?e db)}"
    by (auto simp: wl_Add_def pg_wl_ops_def Let_def split: option.splits prod.splits)
  with pg_wl_Add_frame [OF assms, of env ?e] assms WLAdd show ?thesis by auto
next
  case (WLVerify now u c a)
  from wl_Verify_effect [of "pg_wl_ops env" now u c a db]
  have "\<exists>e. snd (wl_Verify (pg_wl_ops env) now u c a db) \<in> {db, snd (pg_wl_Update env e db)}"
    by (auto simp: pg_wl_ops_def)
  with pg_wl_Update_frame [OF assms, of env] assms WLVerify show ?thesis by fastforce
qed

section \<open>Recording, parking and resolving\<close>

definition recorded :: "string \<Rightarrow> pg \<Rightarrow> pg \<Rightarrow> bool" where
  "recorded did db db' \<longleftrightarrow> pg_ok db' \<and> review_queue db' = review_queue db \<and> did \<notin> pd_id ` set (policy_decisions db)
     \<and> (\<exists>row. policy_decisions db' = policy_decisions db @ [row] \<and> pd_id row = did)"

lemma pg_au_Put_effect:
  assumes ok: "pg_ok (pa_db s)" and put: "pg_au_Put env rec s = (e, s')"
  shows "e \<noteq> None \<and> pa_db s' = pa_db s \<or> recorded (dr_DecisionID rec) (pa_db s) (pa_db s')"
proof (cases "dr_DecisionID rec = [] \<or> pa_policyVersionID s = uuid_Nil")
  case False
  let ?row = "decision_row_of env (pa_policyVersionID s) rec"
  obtain r db' where ex: "exec (pe_fault env 0) (insert_decision ?row) (pa_db s) = (r, db')"
    by (cases "exec (pe_fault env 0) (insert_decision ?row) (pa_db s)")
  with put False have [simp]: "pa_db s' = db'" and e: "isl r \<Longrightarrow> e \<noteq> None"
    by (auto simp: pg_au_Put_def split: sum.splits)
  from ex show ?thesis
  proof (cases rule: exec_cases)
    case (executed x)
    from insert_decision_ok [OF ok executed(1)] show ?thesis
      by (auto simp: recorded_def decision_row_of_def)
  qed (use e in simp)
qed (use put in \<open>auto simp: pg_au_Put_def split: if_splits\<close>)

abbreviation pg_of :: "(pg_audit, 'k) audit_service \<Rightarrow> pg" where
  "pg_of s \<equiv> pa_db (au_store s)"

definition with_pg :: "pg \<Rightarrow> (pg_audit, 'k) audit_service \<Rightarrow> (pg_audit, 'k) audit_service" where
  "with_pg db s = s\<lparr>au_store := (au_store s)\<lparr>pa_db := db\<rparr>\<rparr>"

lemma with_pg_sel [simp]: "pg_of (with_pg db s) = db" "au_syncPersist (with_pg db s) = au_syncPersist s"
  by (simp_all add: with_pg_def)

lemma audit_Emit_effect:
  assumes ok: "pg_ok (pg_of s)" and sync: "au_syncPersist s" and st: "ad_store d = Some (pg_au_ops env)"
    and emit: "audit_Emit d now rec s = (e, s')"
  shows "au_syncPersist s' \<and> (e \<noteq> None \<and> e \<noteq> Some ErrDropped \<and> pg_of s' = pg_of s \<or> recorded (dr_DecisionID rec) (pg_of s) (pg_of s'))"
proof (cases "signer_Sign (ad_crypto d) (ad_signer d) (stamped now rec)")
  case (Inl err)
  with emit sync show ?thesis by (auto simp: audit_Emit_def ErrDropped_def)
next
  case (Inr sig)
  let ?rec = "(stamped now rec)\<lparr>dr_Signature := sig\<rparr>"
  obtain r st' where put: "pg_au_Put env ?rec (au_store s) = (r, st')" by (cases "pg_au_Put env ?rec (au_store s)")
  have id: "dr_DecisionID ?rec = dr_DecisionID rec" by (simp add: stamped_def)
  show ?thesis
  proof (cases r)
    case None
    with put emit Inr sync st have "au_store s' = st'" and "au_syncPersist s'"
      by (auto simp: audit_Emit_def pg_au_ops_def Let_def enqueue_def add_drop_def split: if_splits)
    with pg_au_Put_effect [OF ok put] None id show ?thesis by simp
  next
    case (Some err)
    with put emit Inr sync st have "au_store s' = st'" "au_syncPersist s'" "e = Some (Errorf ''persist: '' err)"
      by (auto simp: audit_Emit_def pg_au_ops_def Let_def add_drop_def)
    with pg_au_Put_effect [OF ok put] id show ?thesis by (auto simp: ErrDropped_def)
  qed
qed

lemma rv_Park_state:
  assumes "rv_Park ops now d tx s = (r, s')"
  shows "s' = s \<or> s' = snd (rvStorePut ops (zero_review_item\<lparr>rv_DecisionID := d, rv_TxID := tx,
     rv_Status := rv_StatusPending, rv_CreatedAt := now\<rparr>) s)"
  using assms by (auto simp: rv_Park_def Let_def split: if_splits option.splits prod.splits)

lemma rv_Resolve_state:
  assumes "rv_Resolve ops nt now d asg resolution s = (r, sent, s')"
  obtains (unchanged) "s' = s"
    | (resolved) item where "rvStoreGet ops d s = Inr (Some item)" and "rv_Status item \<noteq> rv_StatusResolved"
        and "s' = snd (rvStoreUpdate ops (item\<lparr>rv_Status := rv_StatusResolved, rv_AssignedTo := asg,
               rv_Resolution := resolution, rv_ResolvedAt := Some now\<rparr>) s)"
proof (cases "s' = s")
  case False
  then have val: "\<not> (resolution \<noteq> ResolutionAllow \<and> resolution \<noteq> ResolutionDeny)"
    using assms unfolding rv_Resolve_def by (cases "resolution \<noteq> ResolutionAllow \<and> resolution \<noteq> ResolutionDeny") simp_all
  from False assms val obtain item where get: "rvStoreGet ops d s = Inr (Some item)"
    by (cases "rvStoreGet ops d s") (auto simp: rv_Resolve_def split: option.splits)
  with False assms val have st: "rv_Status item \<noteq> rv_StatusResolved"
    by (cases "rv_Status item = rv_StatusResolved") (simp_all add: rv_Resolve_def)
  let ?item = "item\<lparr>rv_Status := rv_StatusResolved, rv_AssignedTo := asg, rv_Resolution := resolution, rv_ResolvedAt := Some now\<rparr>"
  from assms st have "s' = snd (rvStoreUpdate ops ?item s)"
    unfolding rv_Resolve_def if_not_P [OF val] get sum.case option.case Let_def
    by (cases "rvStoreUpdate ops ?item s") (simp split: option.splits)
  with get st show thesis by (rule resolved)
qed (rule unchanged)

lemma rv_Park_effect:
  assumes ok: "pg_ok db" and park: "rv_Park (pg_rv_ops env) now did tx db = (r, db')"
  shows "db' = db \<or> pg_ok db' \<and> policy_decisions db' = policy_decisions db
    \<and> (\<exists>row. review_queue db' = review_queue db @ [row] \<and> pr_decision row = did)"
proof (cases "db' = db")
  case False
  define row where "row = review_row_of env (zero_review_item\<lparr>rv_DecisionID := did, rv_TxID := tx, rv_Status := rv_StatusPending, rv_CreatedAt := now\<rparr>)"
  obtain x db1 where ex: "exec (pe_fault env 0) (insert_review row) db = (x, db1)"
    by (cases "exec (pe_fault env 0) (insert_review row) db")
  with rv_Park_state [OF park] False have [simp]: "db1 = db'"
    unfolding row_def by (simp add: pg_rv_ops_def pg_rv_Put_def split: sum.splits)
  from ex show ?thesis
  proof (cases rule: exec_cases)
    case (executed y)
    have "pr_decision row = did" by (simp add: row_def review_row_of_def)
    with insert_review_ok [OF ok executed(1)] show ?thesis by auto
  qed (use False in simp)
qed simp

lemma scan_mset: "mset (scan env rows) = mset rows"
proof (cases "sort (pe_scan env (length rows)) = [0..<length rows]")
  case True
  then have "mset (pe_scan env (length rows)) = mset [0..<length rows]" by (metis mset_sort)
  then have "mset (map (\<lambda>i. rows ! i) (pe_scan env (length rows))) = mset (map (\<lambda>i. rows ! i) [0..<length rows])"
    by simp
  with True show ?thesis by (simp add: scan_def map_nth)
qed (simp add: scan_def Let_def)

lemma scan_set: "set (scan env rows) = set rows"
  by (metis scan_mset mset_eq_setD)

lemma scan_single [simp]: "scan env [x] = [x]"
  using scan_mset [of env "[x]"] by simp

lemma one_review_filter:
  assumes "one_review db" and "row \<in> set (review_queue db)" and "pr_decision row = d"
  shows "filter (\<lambda>r. pr_decision r = d) (review_queue db) = [row]"
proof -
  have "distinct (map pr_decision rs) \<Longrightarrow> row \<in> set rs \<Longrightarrow> filter (\<lambda>r. pr_decision r = pr_decision row) rs = [row]" for rs
    by (induction rs) (auto simp: filter_empty_conv image_iff)
  with assms show ?thesis by (auto simp: one_review_def)
qed

text \<open>A resolution changes rows of its decision only, and none that is resolved already.\<close>

lemma rv_Resolve_effect:
  assumes ok: "pg_ok db" and one: "one_review db"
    and res: "rv_Resolve (pg_rv_ops env) nt now d asg resolution db = (r, sent, db')"
  shows "pg_ok db' \<and> one_review db' \<and> policy_decisions db' = policy_decisions db
    \<and> (\<forall>row \<in> set (review_queue db). pr_status row = rv_StatusResolved \<longrightarrow> row \<in> set (review_queue db'))"
  using res
proof (cases rule: rv_Resolve_state)
  case (resolved item)
  from resolved(1) obtain row0 rest where sc: "scan env (filter (\<lambda>r. pr_decision r = d) (review_queue db)) = row0 # rest"
    and it: "item = scanReviewRow row0"
    by (auto simp: pg_rv_ops_def pg_rv_Get_def query_def split: fault.splits list.splits)
  from sc have row0: "row0 \<in> set (review_queue db)" "pr_decision row0 = d"
    using scan_set [of env "filter (\<lambda>r. pr_decision r = d) (review_queue db)"] by auto
  define sel where "sel = (\<lambda>r :: review_row. pr_decision r = d)"
  define f :: "review_row \<Rightarrow> review_row" where
    "f = (\<lambda>r. r\<lparr>pr_status := rv_StatusResolved, pr_assigned := nullableText asg,
       pr_resolved := map_option (pe_micros env) (nullableTimePtr (Some now)), pr_resolution := nullableText resolution\<rparr>)"
  have keep: "pr_id (f r) = pr_id r \<and> pr_decision (f r) = pr_decision r" for r by (simp add: f_def)
  obtain x db1 where ex: "exec (pe_fault env 2) (update_review sel f) db = (x, db1)"
    by (cases "exec (pe_fault env 2) (update_review sel f) db")
  with resolved(3) it row0 have [simp]: "db1 = db'"
    unfolding sel_def f_def by (simp add: pg_rv_ops_def pg_rv_Update_def scanReviewRow_def split: sum.splits)
  have closed: "\<not> sel row" if "row \<in> set (review_queue db)" "pr_status row = rv_StatusResolved" for row
  proof
    assume "sel row"
    then have "filter (\<lambda>r. pr_decision r = d) (review_queue db) = [row]"
      using one_review_filter [OF one that(1)] by (simp add: sel_def)
    with sc have "row0 = row" by simp
    with it that(2) resolved(2) show False by (simp add: scanReviewRow_def)
  qed
  from ex show ?thesis
  proof (cases rule: exec_cases)
    case (executed n)
    note eff = update_review_ok [OF ok executed(1) keep]
    have "map pr_decision (review_queue db') = map pr_decision (review_queue db)" using eff keep by simp
    with one have "one_review db'" by (simp add: one_review_def)
    with eff closed show ?thesis by (auto simp: image_iff)
  qed (use ok one in simp)
qed (use ok one in simp)

section \<open>Runs of the service on the database\<close>

text \<open>
  \<open>Parked\<close> is the end of an evaluation with manual review, \<open>Recorded\<close> that of any other one or one whose
  emission fails. Between two steps the process may restart, which forgets the resolved version and the queue and
  may bring another signing key, so the signer of a step is arbitrary.
\<close>

inductive pg_step :: "('sk, 'pk) crypto \<Rightarrow> (pg_audit, 'k) audit_service \<Rightarrow> (pg_audit, 'k) audit_service \<Rightarrow> bool" for cr where
  Recorded: "ad_crypto d = cr \<Longrightarrow> ad_store d = Some (pg_au_ops env) \<Longrightarrow> audit_Emit d now rec s = (e, s') \<Longrightarrow> pg_step cr s s'"
| Parked: "ad_crypto d = cr \<Longrightarrow> ad_store d = Some (pg_au_ops env) \<Longrightarrow> audit_Emit d now rec s = (e, s1) \<Longrightarrow> e = None \<or> e = Some ErrDropped \<Longrightarrow>
    rv_Park (pg_rv_ops env') now' (dr_DecisionID rec) [] (pg_of s1) = (r, db') \<Longrightarrow> pg_step cr s (with_pg db' s1)"
| Worked: "ad_crypto d = cr \<Longrightarrow> pg_step cr s (audit_work d s)"
| Resolved: "rv_Resolve (pg_rv_ops env) nt now did asg resolution (pg_of s) = (r, sent, db') \<Longrightarrow> pg_step cr s (with_pg db' s)"
| Whitelisted: "pg_step cr s (with_pg (wl_step (pg_wl_ops env) ev (pg_of s)) s)"
| Activated: "ActivatePolicyVersion env scope v h src by' (Some (pg_of s)) = (r, Some db') \<Longrightarrow> pg_step cr s (with_pg db' s)"
| Ensured: "EnsurePolicyVersion env v h src by' (au_store s) = (r, st') \<Longrightarrow> pg_step cr s (s\<lparr>au_store := st'\<rparr>)"
| Restarted: "pg_step cr s (WithSyncPersist (au_NewService (pg_NewAuditStore (pg_of s)) sink n))"

inductive pg_reach :: "('sk, 'pk) crypto \<Rightarrow> (pg_audit, 'k) audit_service \<Rightarrow> bool" for cr where
  Booted: "pg_reach cr (WithSyncPersist (au_NewService (pg_NewAuditStore pg_empty) sink n))"
| Stepped: "pg_reach cr s \<Longrightarrow> pg_step cr s s' \<Longrightarrow> pg_reach cr s'"

lemma pg_reach_steps: "(pg_step cr)\<^sup>*\<^sup>* s s' \<Longrightarrow> pg_reach cr s \<Longrightarrow> pg_reach cr s'"
  by (induction rule: rtranclp_induct) (auto intro: Stepped)

definition pg_inv :: "(pg_audit, 'k) audit_service \<Rightarrow> bool" where
  "pg_inv s \<longleftrightarrow> au_syncPersist s \<and> pg_ok (pg_of s) \<and> one_review (pg_of s)"

definition pg_kept :: "pg \<Rightarrow> pg \<Rightarrow> bool" where
  "pg_kept db db' \<longleftrightarrow> prefix (policy_decisions db) (policy_decisions db')
     \<and> (\<forall>row \<in> set (review_queue db). pr_status row = rv_StatusResolved \<longrightarrow> row \<in> set (review_queue db'))"

lemma pg_kept_refl [simp]: "pg_kept db db"
  by (simp add: pg_kept_def)

lemma pg_kept_trans: "pg_kept db1 db2 \<Longrightarrow> pg_kept db2 db3 \<Longrightarrow> pg_kept db1 db3"
  by (auto simp: pg_kept_def intro: prefix_order.trans)

lemma frame_kept: "one_review db \<Longrightarrow> pg_frame db db' \<Longrightarrow> pg_ok db' \<and> one_review db' \<and> pg_kept db db'"
  by (simp add: pg_frame_def one_review_def pg_kept_def)

lemma recorded_kept: "one_review db \<Longrightarrow> recorded did db db' \<Longrightarrow> pg_ok db' \<and> one_review db' \<and> pg_kept db db'"
  by (auto simp: recorded_def one_review_def pg_kept_def)

lemma audit_work_sync:
  assumes "au_syncPersist s"
  shows "au_store (audit_work d s) = au_store s \<and> au_syncPersist (audit_work d s)"
  using assms
  by (auto simp: audit_work_def publish_record_def add_drop_def Let_def split: list.splits option.splits prod.splits)

text \<open>The review of a decision that has just been recorded is the first one, as every review refers to a recorded decision.\<close>

lemma recorded_then_parked:
  assumes ok: "pg_ok db" and one: "one_review db" and rec: "recorded did db db1"
    and park: "rv_Park (pg_rv_ops env) now did [] db1 = (r, db')"
  shows "pg_ok db' \<and> one_review db' \<and> pg_kept db db'"
proof -
  have new: "did \<notin> pr_decision ` set (review_queue db1)"
    using ok rec by (auto simp: recorded_def pg_ok_defs)
  have k1: "pg_ok db1 \<and> one_review db1 \<and> pg_kept db db1" using recorded_kept [OF one rec] .
  then have "pg_ok db1" by simp
  from rv_Park_effect [OF this park] new k1 show ?thesis
    by (auto simp: one_review_def pg_kept_def)
qed

lemma pg_step_inv:
  assumes "pg_step cr s s'" and "pg_inv s"
  shows "pg_inv s' \<and> pg_kept (pg_of s) (pg_of s')"
  using assms(1)
proof cases
  case (Recorded d env now rec e)
  with assms(2) audit_Emit_effect [OF _ _ Recorded(2,3)] recorded_kept show ?thesis
    by (auto simp: pg_inv_def)
next
  case (Parked d env now rec e s1 env' now' r db')
  have "recorded (dr_DecisionID rec) (pg_of s) (pg_of s1) \<and> au_syncPersist s1"
    using assms(2) audit_Emit_effect [OF _ _ Parked(3,4)] Parked(5) by (auto simp: pg_inv_def)
  with recorded_then_parked [OF _ _ _ Parked(6), of "pg_of s"] assms(2) Parked(1) show ?thesis
    by (simp add: pg_inv_def)
next
  case (Worked d)
  with assms(2) audit_work_sync [of s d] show ?thesis by (simp add: pg_inv_def)
next
  case (Resolved env nt now did asg resolution r sent db')
  with assms(2) rv_Resolve_effect [OF _ _ Resolved(2)] show ?thesis
    by (simp add: pg_inv_def pg_kept_def)
next
  case (Whitelisted env ev)
  with assms(2) wl_step_frame [of "pg_of s" env ev] frame_kept [of "pg_of s"] show ?thesis
    by (simp add: pg_inv_def)
next
  case (Activated env scope v h src by' r db')
  with assms(2) ActivatePolicyVersion_frame [OF _ Activated(2)] frame_kept [of "pg_of s"] show ?thesis
    by (simp add: pg_inv_def)
next
  case (Ensured env v h src by' r st')
  with assms(2) EnsurePolicyVersion_frame [OF _ Ensured(2)] frame_kept [of "pg_of s"] show ?thesis
    by (simp add: pg_inv_def)
next
  case (Restarted sink n)
  with assms(2) show ?thesis by (simp add: pg_inv_def WithSyncPersist_def au_NewService_def pg_NewAuditStore_def)
qed

lemma pg_reach_inv: "pg_reach cr s \<Longrightarrow> pg_inv s"
proof (induction rule: pg_reach.induct)
  case (Booted sink n)
  show ?case
    by (simp add: pg_inv_def WithSyncPersist_def au_NewService_def pg_NewAuditStore_def pg_empty_def pg_ok_defs one_review_def)
next
  case (Stepped s s')
  then show ?case using pg_step_inv by blast
qed

lemma pg_steps_kept:
  assumes "(pg_step cr)\<^sup>*\<^sup>* s s'" and "pg_inv s"
  shows "pg_inv s' \<and> pg_kept (pg_of s) (pg_of s')"
  using assms
proof (induction rule: rtranclp_induct)
  case (step y z)
  then show ?case using pg_step_inv [of cr y z] pg_kept_trans by blast
qed simp

text \<open>
  C12: In every state the service on PostgreSQL can reach, all keys are unique, every reference points to a row
  and every version number fits its column; and every decision has at most one review, although the table of
  reviews declares no such key: reviews are parked after the decision has been recorded under its primary key.
\<close>
theorem pg_integrity:
  assumes "pg_reach cr s"
  shows "pg_ok (pg_of s) \<and> one_review (pg_of s)"
  using pg_reach_inv [OF assms] by (simp add: pg_inv_def)


text \<open>
  Without that order nothing keeps the reviews apart: the store accepts a second review of a decision, where
  the in-memory store reports a duplicate.
\<close>
theorem pg_review_duplicate_accepted:
  assumes "pe_fault env 0 = NoFault" and "pe_uuid env 0 \<notin> pr_id ` set (review_queue db)"
    and "rv_DecisionID item \<in> pd_id ` set (policy_decisions db)" and "rv_DecisionID item \<in> pr_decision ` set (review_queue db)"
  shows "\<exists>db'. pg_rv_Put env item db = (None, db') \<and> \<not> one_review db'"
proof -
  from assms(2,3) have "insert_review (review_row_of env item) db = Inr ((), db\<lparr>review_queue := review_queue db @ [review_row_of env item]\<rparr>)"
    unfolding insert_review_def list_ex_key by (simp add: review_row_of_def)
  with assms(1,4) show ?thesis
    by (simp add: pg_rv_Put_def exec_def one_review_def) (simp add: review_row_of_def)
qed

text \<open>A review of a decision that is not recorded is refused: this is why production persists decisions synchronously.\<close>

lemma pg_review_needs_decision:
  assumes "rv_DecisionID item \<notin> pd_id ` set (policy_decisions db)"
  shows "\<exists>err. pg_rv_Put env item db = (Some err, db)"
proof -
  have "\<exists>err. insert_review (review_row_of env item) db = Inl err"
    using assms unfolding insert_review_def list_ex_key by (simp add: review_row_of_def)
  then show ?thesis by (auto simp: pg_rv_Put_def exec_def split: fault.splits)
qed

section \<open>Instances\<close>

definition demo_pg_deps :: "(unit, unit, pg_audit, memory_sink) audit_deps" where
  "demo_pg_deps = \<lparr>ad_crypto = demo_crypto, ad_signer = demo_signer, ad_store = Some (pg_au_ops (demo_pg_env 1)), ad_sink = Some memory_sink_ops\<rparr>"

definition demo_pg0 :: "(pg_audit, memory_sink) audit_service" where
  "demo_pg0 = WithSyncPersist (au_NewService (pg_NewAuditStore pg_empty) NewMemorySink 0)"

definition demo_pg1 :: "(pg_audit, memory_sink) audit_service" where
  "demo_pg1 = demo_pg0\<lparr>au_store := snd (EnsurePolicyVersion (demo_pg_env 0) ''v'' ''h'' [] ''boot'' (au_store demo_pg0))\<rparr>"

definition demo_pg2 :: "(pg_audit, memory_sink) audit_service" where
  "demo_pg2 = (let s = snd (audit_Emit demo_pg_deps 5 (demo_record ''d'') demo_pg1)
     in with_pg (snd (rv_Park (pg_rv_ops (demo_pg_env 2)) 6 ''d'' [] (pg_of s))) s)"

definition demo_pg3 :: "(pg_audit, memory_sink) audit_service" where
  "demo_pg3 = with_pg (snd (snd (rv_Resolve (pg_rv_ops (demo_pg_env 3)) None 7000 ''d'' ''ann'' ResolutionAllow (pg_of demo_pg2)))) demo_pg2"

lemma demo_pg_rows:
  "map pd_id (policy_decisions (pg_of demo_pg3)) = [''d'']"
  by code_simp

lemma demo_pg_emit: "fst (audit_Emit demo_pg_deps 5 (demo_record ''d'') demo_pg1) = None"
  by code_simp

lemma demo_pg_resolved: "map pr_status (review_queue (pg_of demo_pg3)) = [rv_StatusResolved]"
  by code_simp

lemma demo_pg1_reach: "pg_reach demo_crypto demo_pg1"
proof -
  have "pg_reach demo_crypto demo_pg0" unfolding demo_pg0_def by (rule Booted)
  moreover have "pg_step demo_crypto demo_pg0 demo_pg1"
    unfolding demo_pg1_def by (rule Ensured, rule prod.collapse [symmetric])
  ultimately show ?thesis by (rule Stepped)
qed

lemma demo_pg_steps:
  "pg_reach demo_crypto demo_pg2" "pg_step demo_crypto demo_pg2 demo_pg3"
proof -
  have "pg_step demo_crypto demo_pg1 demo_pg2"
  proof -
    have d: "ad_crypto demo_pg_deps = demo_crypto" "ad_store demo_pg_deps = Some (pg_au_ops (demo_pg_env 1))"
      by (simp_all add: demo_pg_deps_def)
    have i: "dr_DecisionID (demo_record ''d'') = ''d''" by (simp add: demo_record_def)
    have emit: "audit_Emit demo_pg_deps 5 (demo_record ''d'') demo_pg1 = (None, snd (audit_Emit demo_pg_deps 5 (demo_record ''d'') demo_pg1))"
      using demo_pg_emit by (metis prod.collapse)
    show ?thesis unfolding demo_pg2_def Let_def
      by (rule Parked [OF d emit], simp, unfold i, rule prod.collapse [symmetric])
  qed
  with demo_pg1_reach show "pg_reach demo_crypto demo_pg2" by (rule Stepped)
  let ?r = "rv_Resolve (pg_rv_ops (demo_pg_env 3)) None 7000 ''d'' ''ann'' ResolutionAllow (pg_of demo_pg2)"
  have "?r = (fst ?r, fst (snd ?r), snd (snd ?r))" by simp
  from Resolved [OF this, of demo_crypto] show "pg_step demo_crypto demo_pg2 demo_pg3" unfolding demo_pg3_def .
qed

theorem pg_integrity_witness:
  "pg_ok (pg_of demo_pg3) \<and> one_review (pg_of demo_pg3) \<and> map pr_status (review_queue (pg_of demo_pg3)) = [rv_StatusResolved]"
  using pg_integrity [OF Stepped [OF demo_pg_steps]] demo_pg_resolved by simp


theorem pg_review_duplicate_accepted_witness:
  "\<exists>db'. pg_rv_Put (demo_pg_env 9) (zero_review_item\<lparr>rv_DecisionID := ''d''\<rparr>) (pg_of demo_pg3) = (None, db') \<and> \<not> one_review db'"
proof (rule pg_review_duplicate_accepted)
  have "map pr_id (review_queue (pg_of demo_pg3)) = [21]" by code_simp
  then have "pr_id ` set (review_queue (pg_of demo_pg3)) = {21}" by (metis list.set_map list.simps(15) set_empty)
  then show "pe_uuid (demo_pg_env 9) 0 \<notin> pr_id ` set (review_queue (pg_of demo_pg3))" by (simp add: demo_pg_env_def)
  have "map pr_decision (review_queue (pg_of demo_pg3)) = [''d'']" by code_simp
  then have "pr_decision ` set (review_queue (pg_of demo_pg3)) = {''d''}" by (metis list.set_map list.simps(15) set_empty)
  then show "rv_DecisionID (zero_review_item\<lparr>rv_DecisionID := ''d''\<rparr>) \<in> pr_decision ` set (review_queue (pg_of demo_pg3))" by simp
  have "pd_id ` set (policy_decisions (pg_of demo_pg3)) = {''d''}" using demo_pg_rows by (metis list.set_map list.simps(15) set_empty)
  then show "rv_DecisionID (zero_review_item\<lparr>rv_DecisionID := ''d''\<rparr>) \<in> pd_id ` set (policy_decisions (pg_of demo_pg3))" by simp
qed (simp add: demo_pg_env_def)

end
