(* ===== verification/Pg_Versions.thy ===== *)
theory Pg_Versions
  imports Pg_Runs
begin

text \<open>
  Policy versions and audit records on PostgreSQL: the version numbers derived from version strings and their
  collisions, the activation of a version as one transaction and its round trip with \<^verbatim>\<open>GetActiveVersion\<close>, the
  row that a colliding activation rewrites, and what reading back a recorded decision returns.
\<close>

section \<open>Version numbers\<close>

lemma versionToInt_value:
  "\<exists>n. versionToInt v = Inr n \<and> - (2 ^ 63) \<le> n \<and> n < 2 ^ 63 \<and> (snd (Atoi v) \<noteq> None \<longrightarrow> 1000000 \<le> n \<and> n < 10000000)"
proof (cases "Atoi v")
  case (Pair n e)
  show ?thesis
  proof (cases e)
    case None
    with Pair Atoi_range [of v n] show ?thesis by (simp add: versionToInt_def)
  next
    case (Some err)
    have "uint (fnv1a v mod 9000000) < 9000000" and "0 \<le> uint (fnv1a v mod 9000000)"
      by (simp_all add: uint_mod)
    with Pair Some show ?thesis by (simp add: versionToInt_def)
  qed
qed

text \<open>
  The number of a version is always defined; for a version that is not itself a number, such as a bundle
  hash, it lies between 1000000 and 9999999. It does not identify the version: the decimal text of the
  number, which is another version string, has the same number.
\<close>
theorem versionToInt_collides:
  assumes "snd (Atoi v) \<noteq> None"
  shows "\<exists>n. versionToInt v = Inr n \<and> 1000000 \<le> n \<and> n < 10000000 \<and> Itoa n \<noteq> v \<and> versionToInt (Itoa n) = versionToInt v"
proof -
  from versionToInt_value [of v] assms obtain n where n: "versionToInt v = Inr n" "1000000 \<le> n" "n < 10000000" by auto
  then have "Atoi (Itoa n) = (n, None)" by (intro Atoi_Itoa) simp_all
  with n assms show ?thesis by (auto simp: versionToInt_def intro!: exI [where x = n])
qed

theorem versionToInt_collides_witness:
  "\<exists>n. versionToInt ''c0ffee'' = Inr n \<and> 1000000 \<le> n \<and> n < 10000000 \<and> Itoa n \<noteq> ''c0ffee'' \<and> versionToInt (Itoa n) = versionToInt ''c0ffee''"
  by (rule versionToInt_collides) code_simp

section \<open>The steps of an activation\<close>

lemma find_unique_key:
  assumes "distinct (map key xs)" and "x \<in> set xs"
  shows "find (\<lambda>y. key y = key x) xs = Some x"
  using assms by (induction xs) (auto simp: image_iff)

lemma parseVersionInt_Itoa: "- (2 ^ 63) \<le> n \<Longrightarrow> n < 2 ^ 63 \<Longrightarrow> parseVersionInt (Itoa n) = n"
  by (simp add: parseVersionInt_def Atoi_Itoa)

lemma ensurePolicy_result:
  assumes call: "ensurePolicy env scope db = Inr (pid, db1)" and uniq: "distinct (map po_scope (policies db))"
  shows "policy_versions db1 = policy_versions db \<and> distinct (map po_scope (policies db1))
    \<and> (\<exists>p \<in> set (policies db1). po_id p = pid \<and> po_scope p = scope) \<and> set (policies db) \<subseteq> set (policies db1)"
proof (cases "scan env (filter (\<lambda>p. po_scope p = scope) (policies db))")
  case Nil
  then have "scope \<notin> po_scope ` set (policies db)"
    using scan_set [of env "filter (\<lambda>p. po_scope p = scope) (policies db)"] by (auto simp: filter_empty_conv)
  moreover from call Nil have "pid = pe_uuid env 0" and "insert_policy \<lparr>po_id = pid, po_scope = scope, po_active = None\<rparr> db = Inr ((), db1)"
    by (auto simp: ensurePolicy_def query_def Let_def split: fault.splits sum.splits dest!: tx_exec_keeps)
  ultimately show ?thesis using uniq by (auto simp: insert_policy_def split: if_splits)
next
  case (Cons p ps)
  then have "p \<in> set (filter (\<lambda>p. po_scope p = scope) (policies db))"
    using scan_set [of env "filter (\<lambda>p. po_scope p = scope) (policies db)"] by auto
  moreover from call Cons have "pid = po_id p" and "db1 = db"
    by (auto simp: ensurePolicy_def query_def split: fault.splits)
  ultimately show ?thesis using uniq by auto
qed

lemma upsert_version_result:
  assumes "upsert_version row db = Inr (vid, db')"
  shows "policies db' = policies db
    \<and> (\<exists>v \<in> set (policy_versions db'). pv_id v = vid \<and> pv_version v = pv_version row \<and> pv_hash v = pv_hash row)
    \<and> (\<forall>v \<in> set (policy_versions db). pv_policy v = pv_policy row \<and> pv_version v = pv_version row \<longrightarrow>
         v\<lparr>pv_hash := pv_hash row\<rparr> \<in> set (policy_versions db'))"
proof (cases "find (\<lambda>v. pv_policy v = pv_policy row \<and> pv_version v = pv_version row) (policy_versions db)")
  case None
  then have "\<forall>v \<in> set (policy_versions db). \<not> (pv_policy v = pv_policy row \<and> pv_version v = pv_version row)"
    by (simp add: find_None_iff)
  moreover from None assms have "db' = db\<lparr>policy_versions := policy_versions db @ [row]\<rparr>" and "vid = pv_id row"
    by (auto simp: upsert_version_def Let_def split: if_splits)
  ultimately show ?thesis by auto
next
  case (Some v)
  then have v: "v \<in> set (policy_versions db)" "pv_policy v = pv_policy row" "pv_version v = pv_version row"
    by (auto simp: find_Some_iff)
  define f where "f = (\<lambda>v :: version_row. if pv_policy v = pv_policy row \<and> pv_version v = pv_version row then v\<lparr>pv_hash := pv_hash row\<rparr> else v)"
  from Some assms have vid: "vid = pv_id v" and pol: "policies db' = policies db" and ver: "policy_versions db' = map f (policy_versions db)"
    unfolding f_def by (auto simp: upsert_version_def Let_def split: if_splits)
  have hit: "w\<lparr>pv_hash := pv_hash row\<rparr> \<in> set (policy_versions db')"
    if "w \<in> set (policy_versions db)" "pv_policy w = pv_policy row \<and> pv_version w = pv_version row" for w
  proof -
    from that have "f w = w\<lparr>pv_hash := pv_hash row\<rparr>" by (simp add: f_def)
    with that(1) show ?thesis unfolding ver set_map by (metis imageI)
  qed
  have "\<exists>w \<in> set (policy_versions db'). pv_id w = vid \<and> pv_version w = pv_version row \<and> pv_hash w = pv_hash row"
    by (rule bexI [OF _ hit [OF v(1)]]) (simp_all add: vid v)
  with pol hit show ?thesis by blast
qed

lemma set_active_result:
  assumes "set_active vid pid db = Inr (x, db')"
  shows "policy_versions db' = policy_versions db
    \<and> policies db' = map (\<lambda>p. if po_id p = pid then p\<lparr>po_active := Some vid\<rparr> else p) (policies db)"
  using assms by (auto simp: set_active_def split: if_splits)

lemma Activate_success:
  assumes ok: "pg_ok db" and uniq: "distinct (map po_scope (policies db))"
    and call: "ActivatePolicyVersion env scope v h src by' (Some db) = (Inr vid, Some db')"
  obtains n p pv where "versionToInt v = Inr n"
    and "filter (\<lambda>p. po_scope p = scope) (policies db') = [p]" and "po_active p = Some vid"
    and "pv \<in> set (policy_versions db')" and "pv_id pv = vid" and "pv_version pv = n" and "pv_hash pv = h"
    and "\<And>w q. w \<in> set (policy_versions db) \<Longrightarrow> q \<in> set (policies db) \<Longrightarrow> po_scope q = scope \<Longrightarrow> pv_policy w = po_id q \<Longrightarrow>
       pv_version w = n \<Longrightarrow> w\<lparr>pv_hash := h\<rparr> \<in> set (policy_versions db')"
proof -
  from versionToInt_value [of v] obtain n where n: "versionToInt v = Inr n" by auto
  from call obtain pid db1 db2 where p: "ensurePolicy env scope db = Inr (pid, db1)"
    and v: "ensurePolicyVersion env pid v h src by' db1 = Inr (vid, db2)" and act: "set_active vid pid db2 = Inr ((), db')"
    by (auto simp: ActivatePolicyVersion_def tx_commit_def split: if_splits sum.splits fault.splits dest!: tx_exec_keeps)
  from v n obtain row dbv where up: "upsert_version row db1 = Inr (vid, dbv)" and act1: "set_active vid pid dbv = Inr ((), db2)"
    and row: "pv_version row = n" "pv_hash row = h" "pv_policy row = pid"
    by (auto simp: ensurePolicyVersion_def split: sum.splits dest!: tx_exec_keeps)
  note r1 = ensurePolicy_result [OF p uniq]
  note r2 = upsert_version_result [OF up]
  note r3 = set_active_result [OF act1] set_active_result [OF act]
  from r1 obtain q where q: "q \<in> set (policies db1)" "po_id q = pid" "po_scope q = scope" by blast
  define f where "f = (\<lambda>p :: policy_row. if po_id p = pid then p\<lparr>po_active := Some vid\<rparr> else p)"
  have pol: "policies db' = map f (map f (policies db1))" and ver: "policy_versions db' = policy_versions dbv"
    using r2 r3 by (simp_all add: f_def)
  have [simp]: "po_scope (f p) = po_scope p" for p by (simp add: f_def)
  have "distinct (map po_scope ps) \<Longrightarrow> q \<in> set ps \<Longrightarrow> filter (\<lambda>p. po_scope p = po_scope q) ps = [q]" for ps
    by (induction ps) (auto simp: filter_empty_conv image_iff)
  with r1 q have "filter (\<lambda>p. po_scope p = scope) (policies db1) = [q]" by auto
  then have only: "filter (\<lambda>p. po_scope p = scope) (policies db') = [f (f q)]"
    by (simp add: pol filter_map comp_def)
  have actq: "po_active (f (f q)) = Some vid" using q by (simp add: f_def)
  from r2 row ver obtain pv where pv: "pv \<in> set (policy_versions db')" "pv_id pv = vid" "pv_version pv = n" "pv_hash pv = h" by auto
  have old: "w\<lparr>pv_hash := h\<rparr> \<in> set (policy_versions db')"
    if "w \<in> set (policy_versions db)" "q' \<in> set (policies db)" "po_scope q' = scope" "pv_policy w = po_id q'" "pv_version w = n" for w q'
  proof -
    from that r1 have "q' \<in> set (filter (\<lambda>p. po_scope p = scope) (policies db1))" by auto
    with \<open>filter (\<lambda>p. po_scope p = scope) (policies db1) = [q]\<close> have "q' = q" by simp
    with that r1 r2 ver row q show ?thesis by auto
  qed
  from n only actq pv old show thesis by (rule that)
qed


text \<open>
  The rows of the versions are not immutable: activating another version that has the number of an existing
  one under the same scope gives the old row the new hash, while its source stays that of the old version.
\<close>
theorem version_row_overwritten:
  assumes "pg_ok db" and "distinct (map po_scope (policies db))"
    and "w \<in> set (policy_versions db)" and "q \<in> set (policies db)" and "po_scope q = scope" and "pv_policy w = po_id q"
    and "versionToInt v = Inr (pv_version w)"
    and "ActivatePolicyVersion env scope v h src by' (Some db) = (Inr vid, Some db')"
  shows "w\<lparr>pv_hash := h\<rparr> \<in> set (policy_versions db')"
  using Activate_success [OF assms(1,2,8)] assms(3-7) by (metis sum.inject(2))

section \<open>Reading back a decision\<close>

lemma NullString_nullableText [simp]: "NullString (nullableText s) = s"
  by (simp add: NullString_def nullableText_def)

text \<open>
  C24: A recorded decision reads back with two of its fields changed: the policy version is the number of the
  version that was resolved when the process started, whatever version the record names, and the time is
  rounded by the database. The signature, which covers both fields, is the one of the original record.
\<close>
theorem pg_audit_roundtrip:
  assumes "pg_ok (pa_db s)" and "pg_au_Put env rec s = (None, s')" and "pe_fault env' 1 = NoFault"
  shows "\<exists>v \<in> set (policy_versions (pa_db s)). pv_id v = pa_policyVersionID s
    \<and> pg_au_Get env' (dr_DecisionID rec) s' =
        Inr (Some (rec\<lparr>dr_PolicyVersion := Itoa (pv_version v), dr_CreatedAt := pe_micros env (dr_CreatedAt rec)\<rparr>))"
proof -
  let ?row = "decision_row_of env (pa_policyVersionID s) rec"
  from assms(2) have ins: "insert_decision ?row (pa_db s) = Inr ((), pa_db s')"
    by (auto simp: pg_au_Put_def exec_def split: if_splits fault.splits sum.splits prod.splits)
  then have "pa_db s' = (pa_db s)\<lparr>policy_decisions := policy_decisions (pa_db s) @ [?row]\<rparr>"
    and new: "pd_id ?row \<notin> pd_id ` set (policy_decisions (pa_db s))" and fk: "pd_version ?row \<in> pv_id ` set (policy_versions (pa_db s))"
    unfolding insert_decision_def list_ex_key by (simp_all split: if_splits)
  then have s': "policy_decisions (pa_db s') = policy_decisions (pa_db s) @ [?row]" "policy_versions (pa_db s') = policy_versions (pa_db s)"
    by simp_all
  have id [simp]: "pd_id ?row = dr_DecisionID rec" "pd_version ?row = pa_policyVersionID s" by (simp_all add: decision_row_of_def)
  from new have "find (\<lambda>d. pd_id d = dr_DecisionID rec) (policy_decisions (pa_db s)) = None"
    unfolding find_None_iff id by (metis imageI)
  then have row: "find (\<lambda>d. pd_id d = dr_DecisionID rec) (policy_decisions (pa_db s')) = Some ?row" by (simp add: s' find_snoc)
  from fk obtain v where v: "v \<in> set (policy_versions (pa_db s))" "pv_id v = pa_policyVersionID s" by auto
  with assms(1) find_unique_key [of pv_id "policy_versions (pa_db s)" v]
  have "find (\<lambda>w. pv_id w = pa_policyVersionID s) (policy_versions (pa_db s')) = Some v" by (simp add: pg_ok_defs s')
  with row assms(3) have "pg_au_Get env' (dr_DecisionID rec) s' =
      Inr (Some (rec\<lparr>dr_PolicyVersion := Itoa (pv_version v), dr_CreatedAt := pe_micros env (dr_CreatedAt rec)\<rparr>))"
    by (simp add: pg_au_Get_def query_def scanDecisionRow_def) (simp add: decision_row_of_def)
  with v show ?thesis by blast
qed

section \<open>Instances\<close>

definition demo_act1 :: "uuid result \<times> pg option" where
  "demo_act1 = ActivatePolicyVersion (demo_pg_env 0) ''default'' ''7'' ''h1'' ''package p'' ''api'' (Some pg_empty)"

definition demo_db1 :: pg where
  "demo_db1 = the (snd demo_act1)"

lemma pg_empty_ok: "pg_ok pg_empty"
  by (simp add: pg_empty_def pg_ok_defs)

lemma demo_act1: "demo_act1 = (Inr 2, Some demo_db1)"
proof -
  have "fst demo_act1 = Inr 2" "snd demo_act1 \<noteq> None" by code_simp+
  then show ?thesis by (simp add: prod_eq_iff demo_db1_def)
qed

lemma demo_db1_ok: "pg_ok demo_db1"
  using ActivatePolicyVersion_frame [OF pg_empty_ok demo_act1 [unfolded demo_act1_def]] by (simp add: pg_frame_def)


definition demo_act2 :: "uuid result \<times> pg option" where
  "demo_act2 = ActivatePolicyVersion (demo_pg_env 1) ''default'' ''07'' ''h2'' ''package q'' ''api'' (Some demo_db1)"

lemma demo_act2: "demo_act2 = (Inr 2, Some (the (snd demo_act2)))"
proof -
  have "fst demo_act2 = Inr 2" "snd demo_act2 \<noteq> None" by code_simp+
  then show ?thesis by (simp add: prod_eq_iff)
qed

theorem version_row_overwritten_witness:
  "\<exists>w \<in> set (policy_versions (the (snd demo_act2))). pv_hash w = ''h2'' \<and> pv_source w = ''package p''"
proof -
  let ?w = "\<lparr>pv_id = 2, pv_policy = 1, pv_version = 7, pv_hash = ''h1'', pv_source = ''package p'', pv_created_by = ''api''\<rparr>"
  let ?q = "\<lparr>po_id = 1, po_scope = ''default'', po_active = Some 2\<rparr>"
  have pol: "policies demo_db1 = [?q]" by code_simp
  have ver: "policy_versions demo_db1 = [?w]" by code_simp
  have num: "versionToInt ''07'' = Inr 7" by code_simp
  from version_row_overwritten [OF demo_db1_ok, of ?w ?q "''default''", OF _ _ _ _ _ _ demo_act2 [unfolded demo_act2_def]]
  have "?w\<lparr>pv_hash := ''h2''\<rparr> \<in> set (policy_versions (the (snd demo_act2)))"
    by (simp add: pol ver num demo_act2_def)
  then show ?thesis by force
qed

theorem pg_audit_roundtrip_witness:
  "\<exists>rec'. pg_au_Get (demo_pg_env 5) ''d'' (snd (pg_au_Put (demo_pg_env 1) (demo_record ''d'') (au_store demo_pg1))) = Inr (Some rec')
     \<and> dr_DecisionID rec' = ''d''"
proof -
  have "pg_ok (pa_db (au_store demo_pg1))" using pg_reach_inv [OF demo_pg1_reach] by (simp add: pg_inv_def)
  moreover have "fst (pg_au_Put (demo_pg_env 1) (demo_record ''d'') (au_store demo_pg1)) = None" by code_simp
  then have "pg_au_Put (demo_pg_env 1) (demo_record ''d'') (au_store demo_pg1)
    = (None, snd (pg_au_Put (demo_pg_env 1) (demo_record ''d'') (au_store demo_pg1)))" by (simp add: prod_eq_iff)
  moreover have "pe_fault (demo_pg_env 5) 1 = NoFault" by (simp add: demo_pg_env_def)
  ultimately show ?thesis
    using pg_audit_roundtrip [of "au_store demo_pg1" "demo_pg_env 1" "demo_record ''d''"] by (fastforce simp: demo_record_def)
qed

end
