(* ===== verification/Wiring.thy ===== *)
theory Wiring
  imports Grpc_Server Background Pg_Versions Db_Connect
begin

text \<open>
  The command \<^verbatim>\<open>cmd/policy-engine\<close>: how the process builds its services from the environment
  (\<^verbatim>\<open>buildServices\<close>, \<^verbatim>\<open>buildInMemoryServices\<close>, \<^verbatim>\<open>newAuditSink\<close>) and which background task it starts for
  bundles (\<^verbatim>\<open>run\<close>).

  Start-up ends in an error, in a fatal exit or in running services. The in-memory services are the services
  and the state of the API; the ones on PostgreSQL share one database, so their state is the audit service over
  it. Files, driver, migrations, key generation and Kafka are parameters.
\<close>

section \<open>The audit sink\<close>

datatype 'a boot = Failed gerror | Fatal string | Started 'a

datatype 'k audit_sink = SinkMemory memory_sink | SinkKafka "'k option"

fun sink_Publish :: "('sk, 'pk) crypto \<Rightarrow> 'k kafka \<Rightarrow> gotime \<Rightarrow> decision_record \<Rightarrow> 'k audit_sink \<Rightarrow> gerror option \<times> 'k audit_sink" where
  "sink_Publish cr kf now rec (SinkMemory m) = map_prod id SinkMemory (memory_Publish rec m)"
| "sink_Publish cr kf now rec (SinkKafka w) = map_prod id SinkKafka (kafka_Publish cr kf now rec w)"

definition devMode :: "env \<Rightarrow> bool" where
  "devMode getenv = (let v = getenv ''DEV_MODE'' in v = ''1'' \<or> v = ''true'' \<or> v = ''yes'' \<or> v = ''on'')"

definition splitCSV :: "string \<Rightarrow> string list" where
  "splitCSV s = filter (\<lambda>p. p \<noteq> []) (map TrimSpace (Split (CHR '','') s))"

definition newAuditSink :: "(string list \<Rightarrow> 'k) \<Rightarrow> env \<Rightarrow> 'k audit_sink boot" where
  "newAuditSink connect getenv =
     (let brokers = getenv ''KAFKA_BROKERS''
      in if brokers = [] then
           (if devMode getenv then Started (SinkMemory NewMemorySink)
            else Fatal ''KAFKA_BROKERS unset and DEV_MODE not set; cannot start audit producer'')
         else case NewKafkaSink connect (splitCSV brokers) of
                Inl err \<Rightarrow> if devMode getenv then Started (SinkMemory NewMemorySink) else Fatal (''audit kafka init: '' @ err_Error err)
              | Inr w \<Rightarrow> Started (SinkKafka w))"

section \<open>Building the services\<close>

record ('d, 'm, 'c, 'sk, 'pk, 'k) boot_libs =
  bl_opa :: "('d, 'm, 'c) opa"
  bl_sha256hex :: "string \<Rightarrow> string"
  bl_marshal :: "'d \<Rightarrow> string"
  bl_parsers :: "'d file_parsers"
  bl_walk :: "string \<Rightarrow> walk_entry list"
  bl_jwt :: jwt_lib
  bl_http :: http_client
  bl_json :: api_json
  bl_crypto :: "('sk, 'pk) crypto"
  bl_kafka :: "'k kafka"
  bl_kafka_connect :: "string list \<Rightarrow> 'k"
  bl_parse_url :: "string \<Rightarrow> parsed_url option"
  bl_sql_Open :: "string \<Rightarrow> gerror option"
  bl_migrate :: "pg migrate_lib"

text \<open>What the process meets while it starts: the wait for the database, the statements of the boot transaction, map orders and conversions of the platform.\<close>

record boot_env =
  be_getenv :: env
  be_ready :: ready_env
  be_pg :: pg_env
  be_order :: "wl_memory \<Rightarrow> string list"
  be_publish_time :: gotime
  be_impl :: "f64 \<Rightarrow> i64"

definition NewNotifier :: "env \<Rightarrow> notifier" where
  "NewNotifier getenv = \<lparr>notifier_url = getenv ''TX_ORCHESTRATOR_WEBHOOK_URL''\<rparr>"

definition buildInMemoryServices where
  "buildInMemoryServices libs be eng capsCfg authCfg signer sink =
     (let getenv = be_getenv be;
          deps = \<lparr>ad_crypto = bl_crypto libs, ad_signer = signer, ad_store = Some au_memory_ops,
                  ad_sink = Some \<lparr>ak_Publish = sink_Publish (bl_crypto libs) (bl_kafka libs) (be_publish_time be)\<rparr>\<rparr>;
          sv = eval_NewService (live_engine (bl_opa libs) (Some eng)) (Some memory_counter_ops) (Some capsCfg)
                 (wl_memory_ops (be_order be)) (Some rv_memory_ops) (Some deps) getenv (be_impl be);
          evalSvc = (if auth_Enabled (Some authCfg) then sv else SetSessionValidDefault True sv)
      in (\<lparr>as_eval = evalSvc, as_review = rv_memory_ops, as_notifier = None, as_auth = Some authCfg, 
           as_db = (None :: (string \<Rightarrow> string \<Rightarrow> string \<Rightarrow> string \<Rightarrow> string \<Rightarrow> unit \<Rightarrow> gerror option \<times> unit) option),
           as_opa = bl_opa libs, as_sha256hex = bl_sha256hex libs, as_marshal = bl_marshal libs, as_json = bl_json libs, as_jwt = bl_jwt libs\<rparr>,
          \<lparr>ap_eval = \<lparr>ev_velocity = NewMemoryCounter, ev_whitelist = wl_NewMemoryStore, ev_review = rv_NewMemoryStore,
             ev_audit = au_NewService au_NewMemoryStore sink 1024, ev_metrics = zero_metrics\<rparr>,
           ap_engine = Some eng, ap_db = ()\<rparr>))"

record ('d, 'c, 'sk, 'pk, 'k) pg_services =
  ds_engine :: "('d, 'c) opa_engine"
  ds_caps :: caps_config
  ds_auth :: auth_config
  ds_velocity :: memory_counter
  ds_signer :: "('sk, 'pk) signer"
  ds_audit :: "(pg_audit, 'k audit_sink) audit_service"
  ds_notifier :: notifier
  ds_sessionValidDefault :: bool

datatype ('a, 'b) services = InMemory 'a | OnDatabase 'b

text \<open>The outer \<open>None\<close> is a wait for the database that never ends. The database passed in is what the server holds.\<close>

definition buildServices where
  "buildServices libs be database =
     (let getenv = be_getenv be;
          dev = (getenv ''DEV_MODE'' = ''1'')
      in case LoadBundleFromDir (bl_sha256hex libs) (bl_marshal libs) (bl_parsers libs) (bl_walk libs (envOr getenv ''POLICIES_DIR'' ''policies'')) of
           Inl err \<Rightarrow> (Some (Failed err), database)
         | Inr rules \<Rightarrow>
    (let eng = NewOPAEngine (bl_opa libs) (Some rules);
         capsCfg = caps_DefaultConfig getenv;
         authCfg = NewAuthConfig (bl_jwt libs) (bl_http libs) getenv;
         dsn = getenv ''DB_URL''
     in if dsn = [] then
          (if \<not> dev then (Some (Failed (ErrorNew ''DB_URL not set and DEV_MODE!=1; refusing to start in production mode'')), database)
           else (case NewSigner (bl_crypto libs) None of
                   Inl err \<Rightarrow> (Some (Fatal (err_Error err)), database)
                 | Inr signer \<Rightarrow>
                     (case newAuditSink (bl_kafka_connect libs) getenv of
                        Failed err \<Rightarrow> (Some (Failed err), database)
                      | Fatal msg \<Rightarrow> (Some (Fatal msg), database)
                      | Started sink \<Rightarrow> (Some (Started (InMemory (buildInMemoryServices libs be eng capsCfg authCfg signer sink))), database))))
        else if \<not> dev \<and> getenv ''REDIS_URL'' = [] then
          (Some (Failed (ErrorNew ''REDIS_URL not set and DEV_MODE!=1; refusing to start in production mode (velocity counter requires Redis)'')), database)
        else case Connect (bl_parse_url libs) (bl_sql_Open libs) (be_ready be) dsn of
               None \<Rightarrow> (None, database)
             | Some (Inl err) \<Rightarrow> (Some (Failed err), database)
             | Some (Inr _) \<Rightarrow>
        (case MigrateUp (bl_migrate libs) dsn (envOr getenv ''MIGRATIONS_DIR'' ''migrations'') database of
           (Some err, db) \<Rightarrow> (Some (Failed err), db)
         | (None, db) \<Rightarrow>
        (case EnsurePolicyVersion (be_pg be) (bVersion rules) (bHash rules) [] ''policy-engine'' (pg_NewAuditStore db) of
           (Some err, audStore) \<Rightarrow> (Some (Failed err), pa_db audStore)
         | (None, audStore) \<Rightarrow>
        (case NewSigner (bl_crypto libs) None of
           Inl err \<Rightarrow> (Some (Fatal (err_Error err)), pa_db audStore)
         | Inr signer \<Rightarrow>
        (case newAuditSink (bl_kafka_connect libs) getenv of
           Failed err \<Rightarrow> (Some (Failed err), pa_db audStore)
         | Fatal msg \<Rightarrow> (Some (Fatal msg), pa_db audStore)
         | Started sink \<Rightarrow>
             (Some (Started (OnDatabase
                \<lparr>ds_engine = eng, ds_caps = capsCfg, ds_auth = authCfg, ds_velocity = NewMemoryCounter, ds_signer = signer,
                 ds_audit = WithSyncPersist (au_NewService audStore sink 1024), ds_notifier = NewNotifier getenv,
                 ds_sessionValidDefault = \<not> auth_Enabled (Some authCfg)\<rparr>)), pa_db audStore)))))))"

section \<open>The process\<close>

datatype ('d, 'c) bundle_task = NoTask | Reloader "('d, 'c) hot_reloader" | Polling "('d, 'c) poller"

text \<open>With an interval of 0 both constructors read theirs from the environment.\<close>

definition bundle_task_of :: "('d, 'm, 'c) opa \<Rightarrow> env \<Rightarrow> ('d, 'c) opa_engine \<Rightarrow> ('d, 'c) bundle_task" where
  "bundle_task_of opa getenv opaEng =
     (let bundleURL = getenv ''OPA_BUNDLE_URL''
      in if bundleURL = [] then NoTask
         else if getenv ''POLICY_HOT_RELOAD_INTERVAL'' \<noteq> [] then Reloader (NewHotReloader opa getenv bundleURL 0 (Some opaEng))
         else Polling (NewPoller getenv bundleURL 0 (Some opaEng) True))"

record http_server =
  hs_Addr :: string
  hs_ReadHeaderTimeout :: duration

definition NewServer :: "string \<Rightarrow> http_server" where
  "NewServer addr = \<lparr>hs_Addr = addr, hs_ReadHeaderTimeout = 5 * Second\<rparr>"

record ('s, 'd, 'c, 'p, 'k) process =
  pr_services :: 's
  pr_http :: http_server
  pr_grpc :: "('p, 'k) tls_config option option"
  pr_task :: "('d, 'c) bundle_task"

fun services_engine where
  "services_engine (InMemory (s, st)) = the (ap_engine st)"
| "services_engine (OnDatabase ds) = ds_engine ds"

text \<open>
  What \<^verbatim>\<open>run\<close> starts before it waits for the signal to end. A gRPC server that cannot be built is left out
  (the outer option of \<open>pr_grpc\<close>) and the process serves HTTP only.
\<close>

definition start_run where
  "start_run tls libs be database =
     (case buildServices libs be database of
        (None, db) \<Rightarrow> (None, db)
      | (Some (Failed err), db) \<Rightarrow> (Some (Failed err), db)
      | (Some (Fatal msg), db) \<Rightarrow> (Some (Fatal msg), db)
      | (Some (Started svc), db) \<Rightarrow>
          let getenv = be_getenv be;
              port = (if getenv ''PORT'' = [] then ''8080'' else getenv ''PORT'');
              grpcPort = (if getenv ''GRPC_PORT'' = [] then ''9090'' else getenv ''GRPC_PORT'')
          in (Some (Started
                \<lparr>pr_services = svc, pr_http = NewServer ('':'' @ port),
                 pr_grpc = (case fst (NewGRPCServer tls getenv grpcPort) of Inl err \<Rightarrow> None | Inr creds \<Rightarrow> Some creds),
                 pr_task = bundle_task_of (bl_opa libs) getenv (services_engine svc)\<rparr>), db))"

section \<open>What a started process is\<close>

lemma boot_version: "eng_Version (NewOPAEngine opa (Some b)) = Inr (bVersion b) \<and> eng_Hash (NewOPAEngine opa (Some b)) = Inr (bHash b)"
  by (simp add: NewOPAEngine_def rebuild_def eng_Version_def eng_Hash_def split: sum.splits)

lemma newAuditSink_started:
  assumes "newAuditSink connect getenv = Started sink"
  shows "devMode getenv \<or> (\<exists>w. sink = SinkKafka (Some w)) \<and> splitCSV (getenv ''KAFKA_BROKERS'') \<noteq> []"
  using assms by (auto simp: newAuditSink_def NewKafkaSink_def Let_def split: if_splits sum.splits)

lemma NewAuthConfig_Enabled: "auth_Enabled (Some (NewAuthConfig lib client getenv)) \<longleftrightarrow> getenv ''JWT_ISSUER'' \<noteq> []"
  by (simp add: auth_Enabled_def NewAuthConfig_def Let_def envOr_def)

lemma pg_boot_steps:
  fixes s :: "(pg_audit, 'k) audit_service" and sink :: 'k
  assumes "EnsurePolicyVersion env v h src by' (pg_NewAuditStore (pg_of s)) = (r, audStore)"
  shows "(pg_step cr)\<^sup>*\<^sup>* s (WithSyncPersist (au_NewService audStore sink n))"
proof -
  let ?s0 = "WithSyncPersist (au_NewService (pg_NewAuditStore (pg_of s)) sink n)"
  have "pg_step cr s ?s0" by (rule Restarted)
  moreover have "pg_step cr ?s0 (?s0\<lparr>au_store := audStore\<rparr>)"
    using assms by (intro Ensured) (simp add: WithSyncPersist_def au_NewService_def)
  ultimately show ?thesis
    by (simp add: WithSyncPersist_def au_NewService_def)
qed

lemmas pg_reach_boot = pg_reach_steps [OF pg_boot_steps]

abbreviation boot_bundle where
  "boot_bundle libs be \<equiv> LoadBundleFromDir (bl_sha256hex libs) (bl_marshal libs) (bl_parsers libs)
     (bl_walk libs (envOr (be_getenv be) ''POLICIES_DIR'' ''policies''))"

lemma buildServices_started:
  assumes "buildServices libs be db = (Some (Started svc), db')"
  obtains (memory) rules signer sink where "boot_bundle libs be = Inr rules" and "svc = InMemory (buildInMemoryServices libs be (NewOPAEngine (bl_opa libs) (Some rules))
          (caps_DefaultConfig (be_getenv be)) (NewAuthConfig (bl_jwt libs) (bl_http libs) (be_getenv be)) signer sink)" and "be_getenv be ''DB_URL'' = []" and "be_getenv be ''DEV_MODE'' = ''1''"
    | (database) rules db1 audStore signer sink where "boot_bundle libs be = Inr rules" and "be_getenv be ''DB_URL'' \<noteq> []"
        and "be_getenv be ''DEV_MODE'' = ''1'' \<or> be_getenv be ''REDIS_URL'' \<noteq> []"
        and "EnsurePolicyVersion (be_pg be) (bVersion rules) (bHash rules) [] ''policy-engine'' (pg_NewAuditStore db1) = (None, audStore)"
        and "MigrateUp (bl_migrate libs) (be_getenv be ''DB_URL'') (envOr (be_getenv be) ''MIGRATIONS_DIR'' ''migrations'') db = (None, db1)"
        and "newAuditSink (bl_kafka_connect libs) (be_getenv be) = Started sink" and "db' = pa_db audStore"
        and "svc = OnDatabase \<lparr>ds_engine = NewOPAEngine (bl_opa libs) (Some rules), ds_caps = caps_DefaultConfig (be_getenv be),
           ds_auth = NewAuthConfig (bl_jwt libs) (bl_http libs) (be_getenv be), ds_velocity = NewMemoryCounter, ds_signer = signer,
           ds_audit = WithSyncPersist (au_NewService audStore sink 1024), ds_notifier = NewNotifier (be_getenv be),
           ds_sessionValidDefault = (be_getenv be ''JWT_ISSUER'' = [])\<rparr>"
proof -
  note NewAuthConfig_Enabled [of "bl_jwt libs" "bl_http libs" "be_getenv be"]
  with assms memory database show thesis
    unfolding buildServices_def Let_def
    by (auto split: sum.splits if_splits option.splits prod.splits boot.splits)
qed



section \<open>Instances\<close>

definition demo_libs :: "(string, string, string, unit, unit, string list) boot_libs" where
  "demo_libs = \<lparr>bl_opa = demo_opa, bl_sha256hex = (\<lambda>_. ''7''), bl_marshal = (\<lambda>s. s),
     bl_parsers = \<lparr>parse_json = (\<lambda>_. Inr []), parseYAML = (\<lambda>_. Inr None)\<rparr>,
     bl_walk = (\<lambda>_. [WalkFile ''p.rego'' ''p.rego'' ''allow'']), bl_jwt = demo_jwt,
     bl_http = \<lparr>NewRequest = (\<lambda>_. None), http_Do = (\<lambda>_. Inl (ErrorNew ''down''))\<rparr>, bl_json = demo_json, bl_crypto = demo_crypto,
     bl_kafka = \<lparr>kafka_WriteMessages = (\<lambda>k b w. (None, w @ [b])), kafka_Close = (\<lambda>w. (None, w)), format_rfc3339 = (\<lambda>_. []), json_envelope = (\<lambda>e. Inr (env_payload e))\<rparr>,
     bl_kafka_connect = (\<lambda>_. []), bl_parse_url = (\<lambda>_. None), bl_sql_Open = (\<lambda>_. None),
     bl_migrate = \<lparr>mg_New = (\<lambda>_ _. None), mg_Up = (\<lambda>_ _ db. (None, db)), mg_Down = (\<lambda>_ _ db. (None, db))\<rparr>\<rparr>"

definition demo_boot :: boot_env where
  "demo_boot = \<lparr>be_getenv = (\<lambda>k. if k = ''DB_URL'' \<or> k = ''REDIS_URL'' \<or> k = ''KAFKA_BROKERS''
        \<or> k = ''OPA_BUNDLE_URL'' \<or> k = ''POLICY_HOT_RELOAD_INTERVAL'' \<or> k = ''MTLS_CA_CERT'' then ''x'' else []),
     be_ready = demo_ready, be_pg = demo_pg_env 0, be_order = (\<lambda>_. []), be_publish_time = 1, be_impl = (\<lambda>_. 0)\<rparr>"

lemma demo_ready_ok: "waitForReady demo_ready = Some None"
  unfolding waitForReady_def
  by (subst ready_loop.simps, subst ready_loop.simps, subst ready_loop.simps)
    (simp add: demo_ready_def ready_deadline_def defaultConnectTimeout_def time_defs)

lemma demo_boot_started:
  "case fst (buildServices demo_libs demo_boot pg_empty) of Some (Started svc) \<Rightarrow> True | _ \<Rightarrow> False"
proof -
  have l: "LoadBundleFromDir (bl_sha256hex demo_libs) (bl_marshal demo_libs) (bl_parsers demo_libs) (bl_walk demo_libs (envOr (be_getenv demo_boot) ''POLICIES_DIR'' ''policies''))
    = Inr \<lparr>bVersion = ''7'', bHash = ''7'', bSource = [(''p.rego'', ''allow'')], bData = []\<rparr>" by code_simp
  have c: "Connect (bl_parse_url demo_libs) (bl_sql_Open demo_libs) (be_ready demo_boot) (be_getenv demo_boot ''DB_URL'') = Some (Inr ''x'')"
    using demo_ready_ok by (simp add: Connect_def demo_libs_def demo_boot_def connect_dsn_def)
  have m: "MigrateUp (bl_migrate demo_libs) dsn dir db = (None, db)" for dsn dir db by (simp add: MigrateUp_def demo_libs_def)
  have e: "fst (EnsurePolicyVersion (be_pg demo_boot) ''7'' ''7'' [] ''policy-engine'' (pg_NewAuditStore pg_empty)) = None" by code_simp
  have k: "newAuditSink (bl_kafka_connect demo_libs) (be_getenv demo_boot) = Started (SinkKafka (Some []))" by code_simp
  have g: "be_getenv demo_boot ''DB_URL'' \<noteq> []" "be_getenv demo_boot ''REDIS_URL'' \<noteq> []" by (simp_all add: demo_boot_def)
  have n: "NewSigner (bl_crypto demo_libs) None = Inr demo_signer" by (simp add: NewSigner_def demo_libs_def demo_crypto_def demo_signer_def)
  show ?thesis
    using e g unfolding buildServices_def Let_def l c m k n sum.case option.case boot.case if_not_P [OF g(1)]
    by (auto split: prod.splits option.splits)
qed



end
