(* ===== verification/Pg_Service.thy ===== *)
theory Pg_Service
  imports Evaluate Pg_Runs
begin

text \<open>
  The evaluation path on PostgreSQL. In production the whitelist, the review queue and the audit log are tables of one
  database, so a review is parked in the database that the emission of the decision has left. Parking is the last
  effect of an evaluation (\<open>evaluate_parks_last\<close>), which gives the evaluation on a shared database from the one on
  separate stores; it is a step of the runs of \<open>Pg_Runs\<close>.
\<close>

section \<open>Parking is the last effect\<close>

lemma verdict_review_irrelevant:
  "eval_verdict (sv\<lparr>sv_review := x\<rparr>) ec caps req st = eval_verdict sv ec caps req st"
  "velocity_after (sv\<lparr>sv_review := x\<rparr>) ec caps req st = velocity_after sv ec caps req st"
proof -
  have win: "day_window (sv\<lparr>sv_review := x\<rparr>) = day_window sv" by (simp add: day_window_def)
  have exc: "velocity_exceeded (sv\<lparr>sv_review := x\<rparr>) ec caps req st = velocity_exceeded sv ec caps req st"
    unfolding velocity_exceeded_def win by (simp split: option.splits)
  have sel: "sv_engine (sv\<lparr>sv_review := x\<rparr>) = sv_engine sv" "sv_velocity (sv\<lparr>sv_review := x\<rparr>) = sv_velocity sv" by simp_all
  have aut: "req_auth (sv\<lparr>sv_review := x\<rparr>) caps req = req_auth sv caps req" by (simp add: req_auth_def)
  have wl: "req_whitelisted (sv\<lparr>sv_review := x\<rparr>) req st = req_whitelisted sv req st" by (simp add: req_whitelisted_def)
  have pas: "passed_reasons (sv\<lparr>sv_review := x\<rparr>) = passed_reasons sv" by (simp add: passed_reasons_def)
  show "eval_verdict (sv\<lparr>sv_review := x\<rparr>) ec caps req st = eval_verdict sv ec caps req st"
    unfolding eval_verdict_def exc aut wl pas sel ..
  show "velocity_after (sv\<lparr>sv_review := x\<rparr>) ec caps req st = velocity_after sv ec caps req st"
    unfolding velocity_after_def exc aut wl win sel ..
qed

lemma park_review_observe:
  "(park_review sv ec dec st)\<lparr>ev_metrics := observe ec (ev_metrics (park_review sv ec dec st))\<rparr>
   = park_review sv ec dec (st\<lparr>ev_metrics := observe ec (ev_metrics st)\<rparr>)"
  by (cases "ev_metrics st")
    (simp add: park_review_def observe_def ObserveEvaluateDuration_def Let_def split: option.splits prod.splits)

lemma finalize_parks_last:
  "finalize sv ec ver dec reasons rules score aq st =
     (case finalize (sv\<lparr>sv_review := None\<rparr>) ec ver dec reasons rules score aq st of
        (Return resp None, st') \<Rightarrow> (Return resp None, park_review sv ec (rs_Decision resp) st')
      | out \<Rightarrow> out)"
proof -
  have none: "park_review (sv\<lparr>sv_review := None\<rparr>) ec dec st = st" for st by (simp add: park_review_def)
  show ?thesis
    by (simp add: finalize_def none Let_def split: sum.splits option.splits prod.splits)
qed

lemma evaluate_parks_last:
  "eval_Evaluate sv ec req st =
     (case eval_Evaluate (sv\<lparr>sv_review := None\<rparr>) ec req st of
        (Return resp None, st') \<Rightarrow> (Return resp None, park_review sv ec (rs_Decision resp) st')
      | out \<Rightarrow> out)"
proof (cases "sv_caps sv")
  case None
  then show ?thesis by (simp add: eval_Evaluate_def evaluate_body_def split: option.splits)
next
  case (Some caps)
  let ?st = "st\<lparr>ev_velocity := velocity_after sv ec caps req st\<rparr>"
  let ?sv = "sv\<lparr>sv_review := None\<rparr>"
  have caps': "sv_caps ?sv = Some caps" using Some by simp
  have body: "evaluate_body s ec req st = act_on s ec req (eval_verdict sv ec caps req st) ?st" if "s \<in> {sv, ?sv}" for s
    using that evaluate_body_verdict [OF Some, of ec req st] evaluate_body_verdict [OF caps', of ec req st]
    by (auto simp: verdict_review_irrelevant)
  show ?thesis
  proof (cases "eval_verdict sv ec caps req st")
    case None
    then show ?thesis by (simp add: eval_Evaluate_def body act_on_def split: option.splits)
  next
    case (Some v)
    let ?fin = "\<lambda>s. finalize s ec (ei_Version (sv_engine sv) (vd_read v)) (vd_decision v) (vd_reasons v) (vd_rules v) (vd_score v) (toAuditReq req) ?st"
    have fin: "evaluate_body s ec req st = ?fin s" if "s \<in> {sv, ?sv}" for s
      using body [OF that] that by (auto simp: Some act_on_def)
    obtain out st1 where out: "?fin ?sv = (out, st1)" by (cases "?fin ?sv")
    have last: "?fin sv = (case ?fin ?sv of
        (Return resp None, st') \<Rightarrow> (Return resp None, park_review sv ec (rs_Decision resp) st') | out \<Rightarrow> out)"
      by (rule finalize_parks_last)
    have inv: "eval_Evaluate s ec req st = (Return zero_response (Some err), st)" if "validate req = Some err" for s err
      using that by (simp add: eval_Evaluate_def)
    show ?thesis
    proof (cases "validate req")
      case None
      then have "eval_Evaluate s ec req st = (case ?fin s of (out, st') \<Rightarrow> (out, st'\<lparr>ev_metrics := observe ec (ev_metrics st')\<rparr>))" if "s \<in> {sv, ?sv}" for s
        using fin [OF that] by (simp add: eval_Evaluate_def)
      from this [of sv] this [of ?sv] show ?thesis
        unfolding last out by (cases out) (auto simp: park_review_observe split: option.splits)
    qed (simp add: inv)
  qed
qed

section \<open>The evaluation on a shared database\<close>

record ('v, 'k) pg_state =
  gs_velocity :: 'v
  gs_audit :: "(pg_audit, 'k) audit_service"
  gs_metrics :: metrics

definition pg_view :: "('v, 'k) pg_state \<Rightarrow> ('v, pg, pg, pg_audit, 'k) eval_state" where
  "pg_view gs = \<lparr>ev_velocity = gs_velocity gs, ev_whitelist = pg_of (gs_audit gs), ev_review = pg_of (gs_audit gs),
     ev_audit = gs_audit gs, ev_metrics = gs_metrics gs\<rparr>"

definition pg_Evaluate ::
  "('v, pg, pg, 'sk, 'pk, pg_audit, 'k) eval_service \<Rightarrow> eval_call \<Rightarrow> eval_request \<Rightarrow> ('v, 'k) pg_state \<Rightarrow> eval_outcome \<times> ('v, 'k) pg_state" where
  "pg_Evaluate sv ec req gs =
     (case eval_Evaluate (sv\<lparr>sv_review := None\<rparr>) ec req (pg_view gs) of
        (Return resp None, st) \<Rightarrow>
          let st' = park_review sv ec (rs_Decision resp) (st\<lparr>ev_review := pg_of (ev_audit st)\<rparr>)
          in (Return resp None,
              \<lparr>gs_velocity = ev_velocity st', gs_audit = with_pg (ev_review st') (ev_audit st'), gs_metrics = ev_metrics st'\<rparr>)
      | (out, st) \<Rightarrow> (out, \<lparr>gs_velocity = ev_velocity st, gs_audit = ev_audit st, gs_metrics = ev_metrics st\<rparr>))"

text \<open>What the database and the encoder report is never the error of a full audit queue.\<close>

definition honest_faults :: "pg_env \<Rightarrow> bool" where
  "honest_faults env \<longleftrightarrow> (\<forall>i err. pe_fault env i = Refused err \<or> pe_fault env i = ReplyLost err \<longrightarrow> \<not> errors_Is err ErrDropped)"

lemma pg_au_Put_stored:
  assumes "pg_au_Put env rec s = (None, s')"
  shows "policy_decisions (pa_db s') = policy_decisions (pa_db s) @ [decision_row_of env (pa_policyVersionID s) rec]"
proof -
  let ?row = "decision_row_of env (pa_policyVersionID s) rec"
  from assms have "\<exists>db'. exec (pe_fault env 0) (insert_decision ?row) (pa_db s) = (Inr (), db') \<and> pa_db s' = db'"
    by (auto simp: pg_au_Put_def split: if_splits prod.splits sum.splits)
  then obtain db' where ex: "exec (pe_fault env 0) (insert_decision ?row) (pa_db s) = (Inr (), db')" and s': "pa_db s' = db'" by blast
  from ex have "insert_decision ?row (pa_db s) = Inr ((), db')"
    by (auto simp: exec_def split: fault.splits sum.splits prod.splits)
  then show ?thesis by (auto simp: s' insert_decision_def split: if_splits)
qed

lemma pg_au_Put_honest:
  assumes "pg_au_Put env rec s = (Some err, s')" and "honest_faults env"
  shows "\<not> errors_Is err ErrDropped"
proof -
  have "\<not> errors_Is e ErrDropped" if "exec (pe_fault env 0) (insert_decision row) db = (Inl e, db')" for e row db db'
    using that assms(2)
    by (cases "pe_fault env 0") (auto simp: exec_def honest_faults_def insert_decision_def pqError_def ErrDropped_def split: if_splits sum.splits prod.splits)
  with assms(1) show ?thesis
    by (auto simp: pg_au_Put_def ErrDropped_def ErrDuplicateDecision_def split: if_splits prod.splits sum.splits)
qed

lemma with_pg_same [simp]: "with_pg (pg_of a) a = a"
  by (simp add: with_pg_def)

text \<open>An emission that the evaluation lets pass has stored its record.\<close>

lemma pg_Emit_stored:
  assumes "audit_Emit d now rec s = (e, s')" and "e = None \<or> (\<exists>err. e = Some err \<and> errors_Is err ErrDropped)"
    and "ad_store d = Some (pg_au_ops env)" and "au_syncPersist s" and "honest_faults env"
    and "\<forall>rec err. json_record (ad_crypto d) rec = Inl err \<longrightarrow> \<not> errors_Is err ErrDropped"
  obtains sig where "e = None \<or> e = Some ErrDropped"
    and "pg_au_Put env ((stamped now rec)\<lparr>dr_Signature := sig\<rparr>) (au_store s) = (None, au_store s')"
proof (cases "signer_Sign (ad_crypto d) (ad_signer d) (stamped now rec)")
  case (Inl err)
  then have "\<not> errors_Is err ErrDropped"
    using assms(6) by (auto simp: signer_Sign_def canonicalJSON_def split: sum.splits)
  with Inl assms(1,2) show ?thesis by (auto simp: audit_Emit_def ErrDropped_def)
next
  case (Inr sig)
  let ?rec = "(stamped now rec)\<lparr>dr_Signature := sig\<rparr>"
  obtain r st' where put: "pg_au_Put env ?rec (au_store s) = (r, st')" by (cases "pg_au_Put env ?rec (au_store s)")
  show ?thesis
  proof (cases r)
    case None
    with put assms(1,3,4) Inr have "au_store s' = st'" and "e = None \<or> e = Some ErrDropped"
      by (auto simp: audit_Emit_def pg_au_ops_def Let_def enqueue_def add_drop_def split: if_splits)
    with put None that [of sig] show ?thesis by simp
  next
    case (Some err)
    with put assms(1,3,4) Inr have "e = Some (Errorf ''persist: '' err)"
      by (auto simp: audit_Emit_def pg_au_ops_def Let_def)
    with assms(2) pg_au_Put_honest [of env ?rec "au_store s" err st'] put Some assms(5) show ?thesis
      by (auto simp: ErrDropped_def)
  qed
qed

lemma pg_Park_stored:
  assumes "did \<in> pd_id ` set (policy_decisions db)" and "pe_fault env 0 = NoFault"
    and "pe_uuid env 0 \<notin> pr_id ` set (review_queue db)" and "did \<noteq> []"
  shows "\<exists>row \<in> set (review_queue (snd (rv_Park (pg_rv_ops env) now did [] db))). pr_decision row = did \<and> pr_status row = rv_StatusPending"
proof -
  let ?item = "zero_review_item\<lparr>rv_DecisionID := did, rv_TxID := [], rv_Status := rv_StatusPending, rv_CreatedAt := now\<rparr>"
  have "insert_review (review_row_of env ?item) db = Inr ((), db\<lparr>review_queue := review_queue db @ [review_row_of env ?item]\<rparr>)"
    using assms(1,3) unfolding insert_review_def list_ex_key by (simp add: review_row_of_def)
  with assms(2,4) have "snd (rv_Park (pg_rv_ops env) now did [] db) = db\<lparr>review_queue := review_queue db @ [review_row_of env ?item]\<rparr>"
    by (simp add: rv_Park_def pg_rv_ops_def pg_rv_Put_def exec_def Let_def)
  then show ?thesis by (simp add: review_row_of_def)
qed

lemma pg_whitelisted_row:
  assumes "IsWhitelisted (pg_wl_ops env) u c a db"
  shows "\<exists>row \<in> set (whitelist_addresses db). pw_key row = (u, c, a) \<and> pw_status row = wl_StatusVerified"
proof -
  from pgw.IsWhitelisted_verified [OF assms] obtain row where "find (\<lambda>r. pw_key r = (u, c, a)) (whitelist_addresses db) = Some row"
    and "wl_Status (scanWhitelistRow row) = wl_StatusVerified"
    by (auto simp: pgw.verified_def pg_wl_view_def)
  then show ?thesis by (auto simp: find_Some_iff scanWhitelistRow_def)
qed

text \<open>What the caps demand of an allowed transfer.\<close>

definition within_caps :: "caps_config \<Rightarrow> eval_request \<Rightarrow> bool" where
  "within_caps caps req \<longleftrightarrow> (HighValue2FARequired caps (rq_Rail req) (req_amount req) \<longrightarrow> rq_Session2FA req)
     \<and> \<not> Exceeded (req_cap caps req) \<and> \<not> NearCap (req_cap caps req)"

lemma pg_Evaluate_Return:
  assumes "pg_Evaluate sv ec req gs = (Return resp None, gs')" and "sv_audit sv = Some d"
  obtains e a where "audit_Emit d (ec_emit ec) (decision_record_of (ad_crypto d) resp (toAuditReq req)) (gs_audit gs) = (e, a)"
    and "e = None \<or> (\<exists>err. e = Some err \<and> errors_Is err ErrDropped)" and "rs_DecisionID resp = ec_id ec"
    and "gs_audit gs' = (case sv_review sv of
           None \<Rightarrow> a
         | Some ops \<Rightarrow> if rs_Decision resp = ''manual_review'' then with_pg (snd (rv_Park ops (ec_park ec) (ec_id ec) [] (pg_of a))) a else a)"
    and "rs_Decision resp = ''allow'' \<longrightarrow> IsWhitelisted (sv_whitelist sv) (rq_UserID req) (rq_DestChain req) (rq_DestAddress req) (pg_of (gs_audit gs))
           \<and> (rq_SessionValid req \<or> sv_sessionValidDefault sv) \<and> (\<forall>caps. sv_caps sv = Some caps \<longrightarrow> within_caps caps req)"
proof -
  let ?sv = "sv\<lparr>sv_review := None\<rparr>"
  from assms(1) obtain st where run: "eval_Evaluate ?sv ec req (pg_view gs) = (Return resp None, st)"
    and gs': "gs_audit gs' = (let st' = park_review sv ec (rs_Decision resp) (st\<lparr>ev_review := pg_of (ev_audit st)\<rparr>)
       in with_pg (ev_review st') (ev_audit st'))"
    by (auto simp: pg_Evaluate_def Let_def split: prod.splits eval_outcome.splits option.splits)
  have val: "validate req = None" using eval_Evaluate_invalid [OF run] by (cases "validate req") auto
  from eval_Evaluate_Return [OF run val] obtain caps v st1 where
    "sv_caps ?sv = Some caps" and "eval_verdict ?sv ec caps req (pg_view gs) = Some v" and
    fin: "finalize ?sv ec (ei_Version (sv_engine ?sv) (vd_read v)) (vd_decision v) (vd_reasons v) (vd_rules v) (vd_score v) (toAuditReq req)
           ((pg_view gs)\<lparr>ev_velocity := velocity_after ?sv ec caps req (pg_view gs)\<rparr>) = (Return resp None, st1)"
    and st: "st = st1\<lparr>ev_metrics := observe ec (ev_metrics st1)\<rparr>" .
  have aud: "sv_audit ?sv = Some d" using assms(2) by simp
  obtain e where emit: "audit_Emit d (ec_emit ec) (decision_record_of (ad_crypto d) resp (toAuditReq req)) (gs_audit gs) = (e, ev_audit st)"
    and e: "e = None \<or> (\<exists>err. e = Some err \<and> errors_Is err ErrDropped)"
    using finalize_emits [OF fin aud] by (auto simp: st pg_view_def)
  have "rs_DecisionID resp = ec_id ec" using finalize_Return [OF fin] by simp
  moreover have "gs_audit gs' = (case sv_review sv of
           None \<Rightarrow> ev_audit st
         | Some ops \<Rightarrow> if rs_Decision resp = ''manual_review'' then with_pg (snd (rv_Park ops (ec_park ec) (ec_id ec) [] (pg_of (ev_audit st)))) (ev_audit st) else ev_audit st)"
    by (simp add: gs' park_review_def Let_def split: option.splits prod.splits)
  moreover have "rs_Decision resp = ''allow'' \<longrightarrow>
      IsWhitelisted (sv_whitelist sv) (rq_UserID req) (rq_DestChain req) (rq_DestAddress req) (pg_of (gs_audit gs))
      \<and> (rq_SessionValid req \<or> sv_sessionValidDefault sv) \<and> (\<forall>caps. sv_caps sv = Some caps \<longrightarrow> within_caps caps req)"
    using allow_checks [OF run] by (auto simp: pg_view_def within_caps_def)
  ultimately show ?thesis using emit e that by blast
qed

text \<open>The decision row says what the answer says.\<close>

definition row_records :: "('sk, 'pk) crypto \<Rightarrow> eval_request \<Rightarrow> eval_response \<Rightarrow> decision_row \<Rightarrow> bool" where
  "row_records cr req resp row \<longleftrightarrow>
     pd_id row = rs_DecisionID resp \<and> pd_decision row = rs_Decision resp \<and> pd_reasons row = rs_Reasons resp
     \<and> pd_rules row = map ar_ID (rs_AppliedRules resp) \<and> pd_score row = rs_Score resp
     \<and> pd_request_hash row = RequestHash cr (toAuditReq req)"

lemma pg_Evaluate_recorded:
  assumes "audit_Emit d now (decision_record_of (ad_crypto d) resp (toAuditReq req)) s = (e, a)" and store: "ad_store d = Some (pg_au_ops env)"
    and "e = None \<or> (\<exists>err. e = Some err \<and> errors_Is err ErrDropped)" and "pg_inv s"
    and "honest_faults env" and "\<forall>rec err. json_record (ad_crypto d) rec = Inl err \<longrightarrow> \<not> errors_Is err ErrDropped"
  shows "(e = None \<or> e = Some ErrDropped) \<and> rs_DecisionID resp \<noteq> [] \<and> recorded (rs_DecisionID resp) (pg_of s) (pg_of a)
    \<and> (\<exists>row \<in> set (policy_decisions (pg_of a)). row_records (ad_crypto d) req resp row)"
proof -
  let ?rec = "decision_record_of (ad_crypto d) resp (toAuditReq req)"
  have inv: "pg_ok (pg_of s)" "au_syncPersist s" using assms(4) by (simp_all add: pg_inv_def)
  obtain sig where e: "e = None \<or> e = Some ErrDropped"
    and put: "pg_au_Put env ((stamped now ?rec)\<lparr>dr_Signature := sig\<rparr>) (au_store s) = (None, au_store a)"
    by (rule pg_Emit_stored [OF assms(1,3) store inv(2) assms(5,6)])
  let ?row = "decision_row_of env (pa_policyVersionID (au_store s)) ((stamped now ?rec)\<lparr>dr_Signature := sig\<rparr>)"
  have "policy_decisions (pg_of a) = policy_decisions (pg_of s) @ [?row]" by (rule pg_au_Put_stored [OF put])
  moreover have "row_records (ad_crypto d) req resp ?row"
    by (simp add: row_records_def decision_row_of_def stamped_def decision_record_of_def)
  moreover have "recorded (rs_DecisionID resp) (pg_of s) (pg_of a)"
    using audit_Emit_effect [OF inv store assms(1)] e by (auto simp: decision_record_of_def)
  moreover have "rs_DecisionID resp \<noteq> []"
    using put by (auto simp: pg_au_Put_def stamped_def decision_record_of_def split: if_splits)
  ultimately show ?thesis using e by auto
qed

text \<open>
  An evaluation answered without an error on PostgreSQL is a step of the runs of the stores, so the tables keep their
  integrity and their history; the database now holds a decision row that says what the answer says; an allowed transfer goes to an address
  whose row is verified for exactly this user and chain, within the caps; and an answer of manual review has a pending row in the
  queue, provided that its insert is executed with a fresh identifier.
\<close>
theorem pg_evaluation:
  assumes "pg_Evaluate sv ec req gs = (Return resp None, gs')" and "pg_reach (ad_crypto d) (gs_audit gs)"
    and "sv_audit sv = Some d" and "ad_store d = Some (pg_au_ops env)" and "sv_whitelist sv = pg_wl_ops env_w" and "sv_review sv = Some (pg_rv_ops env_r)"
    and "honest_faults env" and "\<forall>rec err. json_record (ad_crypto d) rec = Inl err \<longrightarrow> \<not> errors_Is err ErrDropped"
  shows "pg_step (ad_crypto d) (gs_audit gs) (gs_audit gs')
    \<and> (\<exists>row \<in> set (policy_decisions (pg_of (gs_audit gs'))). row_records (ad_crypto d) req resp row)
    \<and> (rs_Decision resp = ''allow'' \<longrightarrow>
         (rq_SessionValid req \<or> sv_sessionValidDefault sv) \<and> (\<forall>caps. sv_caps sv = Some caps \<longrightarrow> within_caps caps req)
         \<and> (\<exists>row \<in> set (whitelist_addresses (pg_of (gs_audit gs))). pw_key row = (rq_UserID req, rq_DestChain req, rq_DestAddress req)
               \<and> pw_status row = wl_StatusVerified))
    \<and> (rs_Decision resp = ''manual_review'' \<and> pe_fault env_r 0 = NoFault
         \<and> pe_uuid env_r 0 \<notin> pr_id ` set (review_queue (pg_of (gs_audit gs))) \<longrightarrow>
         (\<exists>row \<in> set (review_queue (pg_of (gs_audit gs'))). pr_decision row = rs_DecisionID resp \<and> pr_status row = rv_StatusPending))"
proof -
  let ?db = "pg_of (gs_audit gs)"
  let ?rec = "decision_record_of (ad_crypto d) resp (toAuditReq req)"
  obtain e a where emit: "audit_Emit d (ec_emit ec) ?rec (gs_audit gs) = (e, a)"
    and e: "e = None \<or> (\<exists>err. e = Some err \<and> errors_Is err ErrDropped)" and did: "rs_DecisionID resp = ec_id ec"
    and gs': "gs_audit gs' = (case sv_review sv of
           None \<Rightarrow> a
         | Some ops \<Rightarrow> if rs_Decision resp = ''manual_review'' then with_pg (snd (rv_Park ops (ec_park ec) (ec_id ec) [] (pg_of a))) a else a)"
    and allow: "rs_Decision resp = ''allow'' \<longrightarrow> IsWhitelisted (sv_whitelist sv) (rq_UserID req) (rq_DestChain req) (rq_DestAddress req) ?db
         \<and> (rq_SessionValid req \<or> sv_sessionValidDefault sv) \<and> (\<forall>caps. sv_caps sv = Some caps \<longrightarrow> within_caps caps req)"
    by (rule pg_Evaluate_Return [OF assms(1,3)])
  note stored = pg_Evaluate_recorded [OF emit assms(4) e pg_reach_inv [OF assms(2)] assms(7,8)]
  obtain r db' where park: "rv_Park (pg_rv_ops env_r) (ec_park ec) (ec_id ec) [] (pg_of a) = (r, db')"
    by (cases "rv_Park (pg_rv_ops env_r) (ec_park ec) (ec_id ec) [] (pg_of a)")
  have gs1: "gs_audit gs' = (if rs_Decision resp = ''manual_review'' then with_pg db' a else a)"
    using gs' park by (simp add: assms(6))
  have id: "dr_DecisionID ?rec = ec_id ec" by (simp add: decision_record_of_def did)
  have "e = None \<or> e = Some ErrDropped" using stored by blast
  then have step: "pg_step (ad_crypto d) (gs_audit gs) (gs_audit gs')"
    using Recorded [OF refl assms(4) emit] Parked [OF refl assms(4) emit, of env_r "ec_park ec" r db'] park unfolding gs1 id by simp
  have "pg_ok (pg_of a)" using stored by (simp add: recorded_def)
  then have "policy_decisions db' = policy_decisions (pg_of a)" using rv_Park_effect [OF _ park] by auto
  then have row: "\<exists>row \<in> set (policy_decisions (pg_of (gs_audit gs'))). row_records (ad_crypto d) req resp row"
    using stored by (simp add: gs1)
  have "rs_Decision resp = ''allow'' \<longrightarrow>
         (rq_SessionValid req \<or> sv_sessionValidDefault sv) \<and> (\<forall>caps. sv_caps sv = Some caps \<longrightarrow> within_caps caps req)
         \<and> (\<exists>row \<in> set (whitelist_addresses ?db). pw_key row = (rq_UserID req, rq_DestChain req, rq_DestAddress req) \<and> pw_status row = wl_StatusVerified)"
    using allow pg_whitelisted_row unfolding assms(5) by blast
  moreover have "\<exists>row \<in> set (review_queue (pg_of (gs_audit gs'))). pr_decision row = rs_DecisionID resp \<and> pr_status row = rv_StatusPending"
    if "rs_Decision resp = ''manual_review''" "pe_fault env_r 0 = NoFault" "pe_uuid env_r 0 \<notin> pr_id ` set (review_queue ?db)"
    using pg_Park_stored [of "ec_id ec" "pg_of a" env_r "ec_park ec"] that park gs1 did stored by (auto simp: recorded_def)
  ultimately show ?thesis using step row by blast
qed

section \<open>Instance\<close>

definition demo_pg_wl :: "(pg_audit, memory_sink) audit_service" where
  "demo_pg_wl = with_pg (wl_runs pg_wl_ops pg_wl_two (pg_of demo_pg1)) demo_pg1"

definition demo_gs :: "(memory_counter, memory_sink) pg_state" where
  "demo_gs = \<lparr>gs_velocity = NewMemoryCounter, gs_audit = demo_pg_wl, gs_metrics = zero_metrics\<rparr>"

definition demo_pg_sv :: "(memory_counter, pg, pg, unit, unit, pg_audit, memory_sink) eval_service" where
  "demo_pg_sv = \<lparr>sv_engine = failing_iface, sv_velocity = Some memory_counter_ops, sv_caps = Some demo_caps,
     sv_whitelist = pg_wl_ops (demo_pg_env 4), sv_review = Some (pg_rv_ops (demo_pg_env 5)), sv_audit = Some demo_pg_deps,
     sv_sessionValidDefault = False, sv_getenv = (\<lambda>_. []), sv_impl = (\<lambda>_. 0)\<rparr>"

lemma demo_pg_wl_reach: "pg_reach demo_crypto demo_pg_wl"
proof -
  have with2: "with_pg db (with_pg db' s) = with_pg db s" for db db' s by (simp add: with_pg_def)
  let ?s = "with_pg (wl_step (pg_wl_ops (demo_pg_env 0)) (WLAdd 1 ''u'' ''eth'' ''0x1'' []) (pg_of demo_pg1)) demo_pg1"
  have "pg_reach demo_crypto ?s" using demo_pg1_reach Whitelisted by (rule Stepped)
  from Stepped [OF this Whitelisted, of "demo_pg_env 1" "WLVerify 2000 ''u'' ''eth'' ''0x1''"] show ?thesis
    by (simp add: demo_pg_wl_def wl_runs_def with2)
qed

lemma demo_pg_verdict:
  "eval_verdict (demo_pg_sv\<lparr>sv_review := None\<rparr>) demo_ec demo_caps demo_req (pg_view demo_gs) =
     Some \<lparr>vd_decision = ''manual_review'', vd_reasons = [''whitelisted'', ''velocity_daily_ok'', ''engine_error''], vd_rules = [],
       vd_score = Fin False (1/2), vd_read = 0\<rparr>"
proof -
  have a: "AuthOK (req_auth demo_pg_sv demo_caps demo_req)"
    by (simp add: req_auth_def demo_req_def demo_caps_def HighValue2FARequired_def)
  have "IsWhitelisted (pg_wl_ops (demo_pg_env 4)) ''u'' ''eth'' ''0x1'' (pg_of demo_pg_wl)" by code_simp
  then have w: "req_whitelisted demo_pg_sv demo_req (pg_view demo_gs)"
    by (simp add: req_whitelisted_def demo_pg_sv_def demo_req_def demo_gs_def pg_view_def)
  have "int64_of_f64 (\<lambda>_. 0) (Fin False 5) = 5" by (simp add: trunc_rat_def)
  then have v: "\<not> velocity_exceeded demo_pg_sv demo_ec demo_caps demo_req (pg_view demo_gs)"
    by (simp add: velocity_exceeded_def demo_pg_sv_def demo_caps_def demo_gs_def pg_view_def memory_Increment_def NewMemoryCounter_def)
  show ?thesis
    unfolding verdict_review_irrelevant using a w v
    by (simp add: eval_verdict_def demo_req_cap cap_rules_def passed_reasons_def) (simp add: demo_pg_sv_def engine_verdict_def demo_half)
qed

lemma demo_pg_run:
  obtains resp gs' where "pg_Evaluate demo_pg_sv demo_ec demo_req demo_gs = (Return resp None, gs')" and "rs_Decision resp = ''manual_review''"
proof -
  let ?sv = "demo_pg_sv\<lparr>sv_review := None\<rparr>"
  have caps: "sv_caps ?sv = Some demo_caps" and aud: "sv_audit demo_pg_sv = Some demo_pg_deps" and ver: "ei_Version (sv_engine demo_pg_sv) 0 = Inr ''v1''"
    by (simp_all add: demo_pg_sv_def)
  let ?resp = "\<lparr>rs_Decision = ''manual_review'', rs_Reasons = [''whitelisted'', ''velocity_daily_ok'', ''engine_error''], rs_AppliedRules = [],
    rs_PolicyVersion = ''v1'', rs_Score = Fin False (1/2), rs_DecisionID = ec_id demo_ec\<rparr>"
  have "fst (audit_Emit demo_pg_deps (ec_emit demo_ec) (decision_record_of (ad_crypto demo_pg_deps) ?resp (toAuditReq demo_req)) demo_pg_wl) = None"
    by code_simp
  then obtain a where emit: "audit_Emit demo_pg_deps (ec_emit demo_ec) (decision_record_of (ad_crypto demo_pg_deps) ?resp (toAuditReq demo_req)) demo_pg_wl = (None, a)"
    by (metis prod.collapse)
  have view: "ev_audit (pg_view demo_gs) = demo_pg_wl" by (simp add: pg_view_def demo_gs_def)
  from emit have "\<exists>st1. evaluate_body ?sv demo_ec demo_req (pg_view demo_gs) = (Return ?resp None, st1)"
    by (simp add: evaluate_body_verdict [OF caps] demo_pg_verdict act_on_def ver aud view finalize_def Let_def)
  then have "\<exists>st2. eval_Evaluate ?sv demo_ec demo_req (pg_view demo_gs) = (Return ?resp None, st2)"
    by (auto simp: eval_Evaluate_def demo_validate)
  then show thesis using that [of ?resp] by (auto simp: pg_Evaluate_def Let_def)
qed

theorem pg_evaluation_witness:
  "\<exists>resp gs'. pg_Evaluate demo_pg_sv demo_ec demo_req demo_gs = (Return resp None, gs') \<and> pg_step demo_crypto (gs_audit demo_gs) (gs_audit gs')
     \<and> (\<exists>row \<in> set (review_queue (pg_of (gs_audit gs'))). pr_decision row = rs_DecisionID resp \<and> pr_status row = rv_StatusPending)"
proof -
  obtain resp gs' where run: "pg_Evaluate demo_pg_sv demo_ec demo_req demo_gs = (Return resp None, gs')" and dec: "rs_Decision resp = ''manual_review''"
    by (rule demo_pg_run)
  have reach: "pg_reach (ad_crypto demo_pg_deps) (gs_audit demo_gs)" using demo_pg_wl_reach by (simp add: demo_gs_def demo_pg_deps_def)
  have sv: "sv_audit demo_pg_sv = Some demo_pg_deps" "ad_store demo_pg_deps = Some (pg_au_ops (demo_pg_env 1))"
    "sv_whitelist demo_pg_sv = pg_wl_ops (demo_pg_env 4)" "sv_review demo_pg_sv = Some (pg_rv_ops (demo_pg_env 5))"
    by (simp_all add: demo_pg_sv_def demo_pg_deps_def)
  have honest: "honest_faults (demo_pg_env 1)" and noflt: "pe_fault (demo_pg_env 5) 0 = NoFault"
    by (simp_all add: honest_faults_def demo_pg_env_def)
  have json: "\<forall>rec err. json_record (ad_crypto demo_pg_deps) rec = Inl err \<longrightarrow> \<not> errors_Is err ErrDropped"
    by (auto simp: demo_pg_deps_def demo_crypto_def ErrDropped_def split: f64.splits)
  have "review_queue (pg_of demo_pg_wl) = []" by code_simp
  then have "pe_uuid (demo_pg_env 5) 0 \<notin> pr_id ` set (review_queue (pg_of (gs_audit demo_gs)))" by (simp add: demo_gs_def)
  with pg_evaluation [OF run reach sv honest json] run dec noflt show ?thesis by (auto simp: demo_pg_deps_def)
qed

end
