(* ===== verification/Production.thy ===== *)
theory Production
  imports Wiring Pg_Service
begin

text \<open>
  The services that \<^verbatim>\<open>buildServices\<close> returns in production, put together: the evaluation service it
  constructs over the database, the sink and the signer of the start-up, and what is known of an evaluation that such
  a process answers at any later time, after any calls on the stores and any restarts.
\<close>

section \<open>The services of a started process\<close>

text \<open>What the three stores meet during one call.\<close>

record pg_call =
  pc_whitelist :: pg_env
  pc_review :: pg_env
  pc_audit :: pg_env

definition pg_deps where
  "pg_deps libs be ds env =
     \<lparr>ad_crypto = bl_crypto libs, ad_signer = ds_signer ds, ad_store = Some (pg_au_ops env),
      ad_sink = Some \<lparr>ak_Publish = sink_Publish (bl_crypto libs) (bl_kafka libs) (be_publish_time be)\<rparr>\<rparr>"

text \<open>The engine is the one the process runs at the time of the call, since publications and the reloader may have swapped its bundle.\<close>

definition pg_evalSvc where
  "pg_evalSvc libs be ds eng pc =
     (let sv = eval_NewService (live_engine (bl_opa libs) (Some eng)) (Some memory_counter_ops) (Some (ds_caps ds)) (pg_wl_ops (pc_whitelist pc))
                 (Some (pg_rv_ops (pc_review pc))) (Some (pg_deps libs be ds (pc_audit pc))) (be_getenv be) (be_impl be)
      in if \<not> auth_Enabled (Some (ds_auth ds)) then SetSessionValidDefault True sv else sv)"

lemma pg_deps_fields [simp]:
  "ad_crypto (pg_deps libs be ds env) = bl_crypto libs" "ad_store (pg_deps libs be ds env) = Some (pg_au_ops env)"
  by (simp_all add: pg_deps_def)

lemma pg_evalSvc_fields [simp]:
  "sv_audit (pg_evalSvc libs be ds eng pc) = Some (pg_deps libs be ds (pc_audit pc))"
  "sv_whitelist (pg_evalSvc libs be ds eng pc) = pg_wl_ops (pc_whitelist pc)"
  "sv_review (pg_evalSvc libs be ds eng pc) = Some (pg_rv_ops (pc_review pc))"
  "sv_caps (pg_evalSvc libs be ds eng pc) = Some (ds_caps ds)"
  "sv_sessionValidDefault (pg_evalSvc libs be ds eng pc) = (\<not> auth_Enabled (Some (ds_auth ds)))"
  by (simp_all add: pg_evalSvc_def eval_NewService_def SetSessionValidDefault_def Let_def)

section \<open>An evaluation in production\<close>

lemma started_on_database:
  fixes s0 :: "(pg_audit, 'k audit_sink) audit_service"
  assumes "buildServices libs be db = (Some (Started (OnDatabase ds)), db')"
    and "MigrateUp (bl_migrate libs) (be_getenv be ''DB_URL'') (envOr (be_getenv be) ''MIGRATIONS_DIR'' ''migrations'') db = (None, pg_of s0)"
  shows "(pg_step (bl_crypto libs))\<^sup>*\<^sup>* s0 (ds_audit ds) \<and> Rules (ds_caps ds) = SeedRules
    \<and> (auth_Enabled (Some (ds_auth ds)) \<longleftrightarrow> be_getenv be ''JWT_ISSUER'' \<noteq> [])"
  using assms(1)
proof (cases rule: buildServices_started)
  case (database rules db1 audStore signer sink)
  have "db1 = pg_of s0" using database(5) assms(2) by simp
  with database(4) have "(pg_step (bl_crypto libs))\<^sup>*\<^sup>* s0 (WithSyncPersist (au_NewService audStore sink 1024))"
    by (intro pg_boot_steps) simp
  with database(8) show ?thesis by (simp add: NewAuthConfig_Enabled)
qed simp


section \<open>Instance\<close>

text \<open>The process of the instance has no token issuer and an empty whitelist: it denies the request and records the decision.\<close>

definition demo_started_audit :: "(pg_audit, string list audit_sink) audit_service" where
  "demo_started_audit = WithSyncPersist (au_NewService
     (snd (EnsurePolicyVersion (demo_pg_env 0) ''7'' ''7'' [] ''policy-engine'' (pg_NewAuditStore pg_empty))) (SinkKafka (Some [])) 1024)"

definition demo_production :: "(string, string, unit, unit, string list) pg_services" where
  "demo_production = \<lparr>ds_engine = NewOPAEngine demo_opa (Some \<lparr>bVersion = ''7'', bHash = ''7'', bSource = [(''p.rego'', ''allow'')], bData = []\<rparr>),
     ds_caps = caps_DefaultConfig (be_getenv demo_boot), ds_auth = NewAuthConfig (bl_jwt demo_libs) (bl_http demo_libs) (be_getenv demo_boot),
     ds_velocity = NewMemoryCounter, ds_signer = demo_signer,
     ds_audit = demo_started_audit,
     ds_notifier = NewNotifier (be_getenv demo_boot), ds_sessionValidDefault = True\<rparr>"

lemma demo_production_started:
  "\<exists>db'. buildServices demo_libs demo_boot pg_empty = (Some (Started (OnDatabase demo_production)), db')"
proof -
  from demo_boot_started obtain svc db' where b: "buildServices demo_libs demo_boot pg_empty = (Some (Started svc), db')"
    by (auto simp: prod_eq_iff split: option.splits boot.splits)
  then show ?thesis
  proof (cases rule: buildServices_started)
    case (memory rules signer sink)
    then show ?thesis by (simp add: demo_boot_def)
  next
    case (database rules db1 audStore signer sink)
    have "boot_bundle demo_libs demo_boot = Inr \<lparr>bVersion = ''7'', bHash = ''7'', bSource = [(''p.rego'', ''allow'')], bData = []\<rparr>" by code_simp
    with database(1) have rules: "rules = \<lparr>bVersion = ''7'', bHash = ''7'', bSource = [(''p.rego'', ''allow'')], bData = []\<rparr>" by simp
    have sink: "sink = SinkKafka (Some [])"
    proof -
      have "newAuditSink (bl_kafka_connect demo_libs) (be_getenv demo_boot) = Started (SinkKafka (Some []))" by code_simp
      with database(6) show ?thesis by simp
    qed
    have signer: "signer = demo_signer" by (cases signer) (simp add: demo_signer_def)
    have "db1 = pg_empty" using database(5) by (simp add: MigrateUp_def demo_libs_def)
    moreover have "be_pg demo_boot = demo_pg_env 0" "be_getenv demo_boot ''JWT_ISSUER'' = []" by (simp_all add: demo_boot_def)
    ultimately have "svc = OnDatabase demo_production"
      using database(4,8) unfolding rules sink signer demo_production_def demo_started_audit_def by (simp add: demo_libs_def)
    with b show ?thesis by simp
  qed
qed

definition demo_pc :: pg_call where
  "demo_pc = \<lparr>pc_whitelist = demo_pg_env 4, pc_review = demo_pg_env 5, pc_audit = demo_pg_env 6\<rparr>"

definition demo_production_gs :: "(memory_counter, string list audit_sink) pg_state" where
  "demo_production_gs = \<lparr>gs_velocity = NewMemoryCounter, gs_audit = ds_audit demo_production, gs_metrics = zero_metrics\<rparr>"

lemma demo_production_run:
  "\<exists>resp gs'. pg_Evaluate (pg_evalSvc demo_libs demo_boot demo_production (ds_engine demo_production) demo_pc) demo_ec (demo_req\<lparr>rq_Rail := ''sepa''\<rparr>) demo_production_gs
     = (Return resp None, gs') \<and> rs_Decision resp = ''deny''"
proof -
  let ?req = "demo_req\<lparr>rq_Rail := ''sepa''\<rparr>"
  let ?sv0 = "pg_evalSvc demo_libs demo_boot demo_production (ds_engine demo_production) demo_pc"
  let ?sv = "?sv0\<lparr>sv_review := None\<rparr>"
  let ?caps = "ds_caps demo_production"
  let ?d = "pg_deps demo_libs demo_boot demo_production (pc_audit demo_pc)"
  have caps: "sv_caps ?sv = Some ?caps" by simp
  have auth: "AuthOK (req_auth ?sv ?caps ?req)"
    by (simp add: req_auth_def demo_req_def demo_production_def seed_2fa_required)
  have aud: "ds_audit demo_production = demo_started_audit" by (simp add: demo_production_def)
  have "\<not> IsWhitelisted (pg_wl_ops (demo_pg_env 4)) ''u'' ''eth'' ''0x1'' (pg_of demo_started_audit)" by code_simp
  then have wl: "\<not> req_whitelisted ?sv ?req (pg_view demo_production_gs)"
    by (simp add: req_whitelisted_def demo_pc_def demo_req_def pg_view_def demo_production_gs_def aud)
  have v: "eval_verdict ?sv demo_ec ?caps ?req (pg_view demo_production_gs) =
      Some \<lparr>vd_decision = ''deny'', vd_reasons = [''dest_not_whitelisted''], vd_rules = [], vd_score = Fin False (1/2), vd_read = 0\<rparr>"
    using auth wl by (simp add: eval_verdict_def demo_half)
  have ver: "ei_Version (sv_engine ?sv) 0 = Inr ''7''"
    by (simp add: pg_evalSvc_def eval_NewService_def SetSessionValidDefault_def Let_def live_engine_def opa_iface_def demo_production_def)
  let ?resp = "\<lparr>rs_Decision = ''deny'', rs_Reasons = [''dest_not_whitelisted''], rs_AppliedRules = [], rs_PolicyVersion = ''7'',
    rs_Score = Fin False (1/2), rs_DecisionID = ec_id demo_ec\<rparr>"
  have d: "?d = \<lparr>ad_crypto = demo_crypto, ad_signer = demo_signer, ad_store = Some (pg_au_ops (demo_pg_env 6)),
      ad_sink = Some \<lparr>ak_Publish = sink_Publish demo_crypto (bl_kafka demo_libs) 1\<rparr>\<rparr>"
    by (simp add: pg_deps_def demo_pc_def demo_production_def demo_libs_def demo_boot_def)
  have "fst (audit_Emit ?d (ec_emit demo_ec) (decision_record_of (ad_crypto ?d) ?resp (toAuditReq ?req)) (ds_audit demo_production)) = None"
    unfolding d aud by code_simp
  then obtain a where emit: "audit_Emit ?d (ec_emit demo_ec) (decision_record_of (ad_crypto ?d) ?resp (toAuditReq ?req)) (ds_audit demo_production) = (None, a)"
    by (metis prod.collapse)
  have view: "ev_audit (pg_view demo_production_gs) = ds_audit demo_production" by (simp add: pg_view_def demo_production_gs_def)
  from emit have "\<exists>st1. evaluate_body ?sv demo_ec ?req (pg_view demo_production_gs) = (Return ?resp None, st1)"
    by (simp add: evaluate_body_verdict [OF caps] v act_on_def view finalize_def Let_def ver [simplified])
  moreover have "validate ?req = None" by (simp add: validate_def demo_req_def demo_trim demo_amount)
  ultimately have "\<exists>st2. eval_Evaluate ?sv demo_ec ?req (pg_view demo_production_gs) = (Return ?resp None, st2)"
    by (auto simp: eval_Evaluate_def)
  then show ?thesis by (auto simp: pg_Evaluate_def Let_def)
qed


end
