(* ===== verification/Process.thy ===== *)
theory Process
  imports Wiring
begin

text \<open>
  The life of the process (\<^verbatim>\<open>main\<close> and \<^verbatim>\<open>run\<close> of \<^verbatim>\<open>cmd/policy-engine\<close>): it serves until a signal cancels its context,
  stops the gRPC server, shuts the HTTP server down within ten seconds, and runs its deferred calls, which stop the
  bundle task and close the audit service. The requests in flight, the goroutines and the clock interleave with these
  steps in any order.

  Of the two servers the documented contract is modelled: \<^verbatim>\<open>GracefulStop\<close> refuses new calls and returns when the
  pending ones have finished, \<^verbatim>\<open>Shutdown\<close> does so for requests, or returns the error of its context.
\<close>

section \<open>State\<close>

datatype process_exit = ExitOK | ExitFatal string | ExitPanic

datatype run_phase =
    Serving
  | StoppingGrpc
  | StoppingHttp
  | StoppingTask "gerror option"
  | ClosingAudit "gerror option"
  | Exited process_exit

datatype 'h task_loop = NoLoop | Looping "'h ticker_loop" | Panicking

record ('h, 's, 'k) running =
  rn_phase :: run_phase
  rn_ctxDone :: bool
  rn_now :: gotime
  rn_deadline :: gotime
  rn_grpc :: bool
  rn_grpcServing :: bool
  rn_rpcs :: nat
  rn_httpServing :: bool
  rn_requests :: nat
  rn_task :: "'h task_loop"
  rn_audit :: "('s, 'k) audit_service"
  rn_events :: "audit_event list"

definition start_loop :: "duration \<Rightarrow> 'h \<Rightarrow> 'h task_loop" where
  "start_loop interval h = (case loop_run interval h of None \<Rightarrow> Panicking | Some l \<Rightarrow> Looping l)"

fun start_task :: "('d, 'c) bundle_task \<Rightarrow> ('d, 'c) bundle_task task_loop" where
  "start_task NoTask = NoLoop"
| "start_task (Reloader h) = start_loop (hr_interval h) (Reloader h)"
| "start_task (Polling p) = start_loop (po_interval p) (Polling p)"

text \<open>A round of whichever task there is.\<close>

fun task_round :: "(string \<Rightarrow> string) \<Rightarrow> ('d, 'm, 'c) opa \<Rightarrow> ('d, 'c) bundle_task \<Rightarrow> ('d, 'c) bundle_task \<Rightarrow> bool" where
  "task_round sha256hex opa (Reloader h) t = (\<exists>h'. reload_round sha256hex opa h h' \<and> t = Reloader h')"
| "task_round sha256hex opa (Polling p) t = (\<exists>p'. poll_round sha256hex p p' \<and> t = Polling p')"
| "task_round sha256hex opa NoTask t = False"

text \<open>\<^verbatim>\<open>run\<close> when it has started everything and waits for its context.\<close>

definition run_serving :: "gotime \<Rightarrow> ('svc, 'd, 'c, 'p, 'q) process \<Rightarrow> ('s, 'k) audit_service \<Rightarrow> (('d, 'c) bundle_task, 's, 'k) running" where
  "run_serving now p a =
     \<lparr>rn_phase = Serving, rn_ctxDone = False, rn_now = now, rn_deadline = now, rn_grpc = (pr_grpc p \<noteq> None), rn_grpcServing = (pr_grpc p \<noteq> None),
      rn_rpcs = 0, rn_httpServing = True, rn_requests = 0, rn_task = start_task (pr_task p), rn_audit = a, rn_events = []\<rparr>"

section \<open>Steps\<close>

definition shutdown_timeout :: gotime where
  "shutdown_timeout = 10 * 1000000000"

definition DeadlineExceeded :: gerror where
  "DeadlineExceeded = ErrorNew ''context deadline exceeded''"

definition map_loop :: "('h ticker_loop \<Rightarrow> 'h ticker_loop) \<Rightarrow> 'h task_loop \<Rightarrow> 'h task_loop" where
  "map_loop f t = (case t of Looping l \<Rightarrow> Looping (f l) | _ \<Rightarrow> t)"

definition task_asked :: "'h task_loop \<Rightarrow> bool" where
  "task_asked t = (case t of NoLoop \<Rightarrow> True | Looping l \<Rightarrow> tl_stopCh l | Panicking \<Rightarrow> True)"

definition task_stopped :: "'h task_loop \<Rightarrow> bool" where
  "task_stopped t = (case t of NoLoop \<Rightarrow> True | Looping l \<Rightarrow> Stop_returns l | Panicking \<Rightarrow> False)"

definition audit_does ::
  "('sk, 'pk, 's, 'k) audit_deps \<Rightarrow> audit_event \<Rightarrow> ('h, 's, 'k) running \<Rightarrow> ('h, 's, 'k) running" where
  "audit_does d ev s = s\<lparr>rn_audit := audit_step d ev (rn_audit s), rn_events := rn_events s @ [ev]\<rparr>"

text \<open>\<^verbatim>\<open>GracefulStop\<close> is called if there is a gRPC server, then \<^verbatim>\<open>Shutdown\<close>; the time for \<^verbatim>\<open>Shutdown\<close> already runs.\<close>

definition call_Shutdown :: "('h, 's, 'k) running \<Rightarrow> ('h, 's, 'k) running" where
  "call_Shutdown s = s\<lparr>rn_phase := StoppingHttp, rn_httpServing := False\<rparr>"

definition shutting_down :: "('h, 's, 'k) running \<Rightarrow> ('h, 's, 'k) running" where
  "shutting_down s =
     (let s1 = s\<lparr>rn_deadline := rn_now s + shutdown_timeout\<rparr>
      in if rn_grpc s then s1\<lparr>rn_phase := StoppingGrpc, rn_grpcServing := False\<rparr> else call_Shutdown s1)"

text \<open>The deferred calls: first the task is stopped, then the audit service closed, then \<^verbatim>\<open>main\<close> reports the error of \<^verbatim>\<open>run\<close>.\<close>

definition deferred_Stop :: "gerror option \<Rightarrow> ('h, 's, 'k) running \<Rightarrow> ('h, 's, 'k) running" where
  "deferred_Stop err s = s\<lparr>rn_phase := StoppingTask err, rn_task := map_loop (\<lambda>l. l\<lparr>tl_stopCh := True\<rparr>) (rn_task s)\<rparr>"

definition deferred_Close :: "('sk, 'pk, 's, 'k) audit_deps \<Rightarrow> gerror option \<Rightarrow> ('h, 's, 'k) running \<Rightarrow> ('h, 's, 'k) running" where
  "deferred_Close d err s = audit_does d Close (s\<lparr>rn_phase := ClosingAudit err\<rparr>)"

definition main_exit :: "gerror option \<Rightarrow> process_exit" where
  "main_exit err = (case err of None \<Rightarrow> ExitOK | Some e \<Rightarrow> ExitFatal (''policy-engine: '' @ err_Error e))"

definition is_exited :: "run_phase \<Rightarrow> bool" where
  "is_exited ph = (case ph of Exited _ \<Rightarrow> True | _ \<Rightarrow> False)"

text \<open>
  The steps of the main goroutine first, then those of the requests, the other goroutines and the clock. \<^verbatim>\<open>Shutdown\<close>
  polls, so it may report its expired context although the last request has just finished; it may also report an error
  of closing its listener. A failing \<^verbatim>\<open>ListenAndServe\<close> ends the process at once, and so does a panic of the task.
\<close>

inductive run_step ::
  "('sk, 'pk, 's, 'k) audit_deps \<Rightarrow> ('h \<Rightarrow> 'h \<Rightarrow> bool) \<Rightarrow> ('h, 's, 'k) running \<Rightarrow> ('h, 's, 'k) running \<Rightarrow> bool" for d round_of where
  Signalled: "\<not> is_exited (rn_phase s) \<Longrightarrow>
    run_step d round_of s (s\<lparr>rn_ctxDone := True, rn_task := map_loop (\<lambda>l. l\<lparr>tl_ctxDone := True\<rparr>) (rn_task s)\<rparr>)"
| ShuttingDown: "rn_phase s = Serving \<Longrightarrow> rn_ctxDone s \<Longrightarrow> run_step d round_of s (shutting_down s)"
| GrpcStopped: "rn_phase s = StoppingGrpc \<Longrightarrow> rn_rpcs s = 0 \<Longrightarrow> run_step d round_of s (call_Shutdown s)"
| HttpDrained: "rn_phase s = StoppingHttp \<Longrightarrow> rn_requests s = 0 \<Longrightarrow> run_step d round_of s (deferred_Stop None s)"
| HttpListener: "rn_phase s = StoppingHttp \<Longrightarrow> rn_requests s = 0 \<Longrightarrow> run_step d round_of s (deferred_Stop (Some lnerr) s)"
| HttpTimedOut: "rn_phase s = StoppingHttp \<Longrightarrow> rn_deadline s \<le> rn_now s \<Longrightarrow> run_step d round_of s (deferred_Stop (Some DeadlineExceeded) s)"
| TaskStopped: "rn_phase s = StoppingTask err \<Longrightarrow> task_stopped (rn_task s) \<Longrightarrow> run_step d round_of s (deferred_Close d err s)"
| AuditClosed: "rn_phase s = ClosingAudit err \<Longrightarrow> \<not> au_running (rn_audit s) \<Longrightarrow> run_step d round_of s (s\<lparr>rn_phase := Exited (main_exit err)\<rparr>)"
| RpcStarted: "\<not> is_exited (rn_phase s) \<Longrightarrow> rn_grpcServing s \<Longrightarrow> run_step d round_of s (s\<lparr>rn_rpcs := Suc (rn_rpcs s)\<rparr>)"
| RpcFinished: "\<not> is_exited (rn_phase s) \<Longrightarrow> rn_rpcs s = Suc n \<Longrightarrow> run_step d round_of s (s\<lparr>rn_rpcs := n\<rparr>)"
| RequestStarted: "\<not> is_exited (rn_phase s) \<Longrightarrow> rn_httpServing s \<Longrightarrow> run_step d round_of s (s\<lparr>rn_requests := Suc (rn_requests s)\<rparr>)"
| RequestFinished: "\<not> is_exited (rn_phase s) \<Longrightarrow> rn_requests s = Suc n \<Longrightarrow> run_step d round_of s (s\<lparr>rn_requests := n\<rparr>)"
| DecisionEmitted: "\<not> is_exited (rn_phase s) \<Longrightarrow> 0 < rn_rpcs s + rn_requests s \<Longrightarrow> run_step d round_of s (audit_does d (Emit now rec) s)"
| WorkerStepped: "\<not> is_exited (rn_phase s) \<Longrightarrow> ev = Work \<or> ev = WorkerExit \<Longrightarrow> run_step d round_of s (audit_does d ev s)"
| TaskStepped: "\<not> is_exited (rn_phase s) \<Longrightarrow> rn_task s = Looping l \<Longrightarrow> loop_step round_of l l' \<Longrightarrow>
    tl_stopCh l' = tl_stopCh l \<Longrightarrow> tl_ctxDone l' = tl_ctxDone l \<Longrightarrow> run_step d round_of s (s\<lparr>rn_task := Looping l'\<rparr>)"
| TaskPanicked: "\<not> is_exited (rn_phase s) \<Longrightarrow> rn_task s = Panicking \<Longrightarrow> run_step d round_of s (s\<lparr>rn_phase := Exited ExitPanic\<rparr>)"
| GrpcServeFailed: "\<not> is_exited (rn_phase s) \<Longrightarrow> run_step d round_of s (s\<lparr>rn_grpcServing := False\<rparr>)"
| ListenFailed: "\<not> is_exited (rn_phase s) \<Longrightarrow> rn_httpServing s \<Longrightarrow>
    run_step d round_of s (s\<lparr>rn_phase := Exited (ExitFatal (''listen: '' @ msg))\<rparr>)"
| TimePassed: "\<not> is_exited (rn_phase s) \<Longrightarrow> rn_now s \<le> t \<Longrightarrow> run_step d round_of s (s\<lparr>rn_now := t\<rparr>)"

inductive_cases run_stepE: "run_step d round_of s s'"

section \<open>What holds at each stage\<close>

text \<open>How far the shutdown has come; an exit that skips the deferred calls counts as none.\<close>

fun stage :: "run_phase \<Rightarrow> nat" where
  "stage Serving = 0"
| "stage StoppingGrpc = 1"
| "stage StoppingHttp = 2"
| "stage (StoppingTask err) = 3"
| "stage (ClosingAudit err) = 4"
| "stage (Exited ExitOK) = 5"
| "stage (Exited (ExitFatal msg)) = 0"
| "stage (Exited ExitPanic) = 0"

fun orderly :: "run_phase \<Rightarrow> bool" where
  "orderly (StoppingTask err) = (err = None)"
| "orderly (ClosingAudit err) = (err = None)"
| "orderly (Exited x) = (x = ExitOK)"
| "orderly ph = False"

definition closed_after :: "bool \<Rightarrow> audit_event list \<Rightarrow> bool" where
  "closed_after quiet evs \<longleftrightarrow> (\<exists>xs ys. evs = xs @ Close # ys \<and> Close \<notin> set xs \<and> Close \<notin> set ys \<and> (quiet \<longrightarrow> set ys \<subseteq> {Work, WorkerExit}))"

definition servers_inv :: "('h, 's, 'k) running \<Rightarrow> bool" where
  "servers_inv s \<longleftrightarrow>
     (rn_grpcServing s \<longrightarrow> rn_grpc s) \<and> (0 < rn_rpcs s \<longrightarrow> rn_grpc s)
     \<and> (1 \<le> stage (rn_phase s) \<longrightarrow> rn_ctxDone s \<and> \<not> rn_grpcServing s)
     \<and> (2 \<le> stage (rn_phase s) \<longrightarrow> rn_rpcs s = 0 \<and> \<not> rn_httpServing s)
     \<and> (orderly (rn_phase s) \<longrightarrow> rn_requests s = 0)"

definition task_inv :: "('h, 's, 'k) running \<Rightarrow> bool" where
  "task_inv s \<longleftrightarrow> (3 \<le> stage (rn_phase s) \<longrightarrow> task_asked (rn_task s)) \<and> (4 \<le> stage (rn_phase s) \<longrightarrow> task_stopped (rn_task s))"

definition audit_inv :: "('sk, 'pk, 's, 'k) audit_deps \<Rightarrow> ('s, 'k) audit_service \<Rightarrow> ('h, 's, 'k) running \<Rightarrow> bool" where
  "audit_inv d a s \<longleftrightarrow>
     rn_audit s = audit_run d (rn_events s) a
     \<and> (4 \<le> stage (rn_phase s) \<longrightarrow> au_stopped (audit_run d (rn_events s) a) \<and> closed_after (orderly (rn_phase s)) (rn_events s))
     \<and> (5 \<le> stage (rn_phase s) \<longrightarrow> \<not> au_running (audit_run d (rn_events s) a))
     \<and> (stage (rn_phase s) < 4 \<and> \<not> is_exited (rn_phase s) \<longrightarrow> Close \<notin> set (rn_events s))"

lemmas main_defs = shutting_down_def call_Shutdown_def deferred_Stop_def deferred_Close_def main_exit_def

lemma audit_does_fields [simp]:
  "rn_phase (audit_does d ev s) = rn_phase s" "rn_ctxDone (audit_does d ev s) = rn_ctxDone s" "rn_grpc (audit_does d ev s) = rn_grpc s"
  "rn_grpcServing (audit_does d ev s) = rn_grpcServing s" "rn_rpcs (audit_does d ev s) = rn_rpcs s" "rn_httpServing (audit_does d ev s) = rn_httpServing s"
  "rn_requests (audit_does d ev s) = rn_requests s" "rn_task (audit_does d ev s) = rn_task s" "rn_events (audit_does d ev s) = rn_events s @ [ev]"
  "rn_audit (audit_does d ev s) = audit_step d ev (rn_audit s)"
  by (simp_all add: audit_does_def)

lemma audit_step_stopped: "au_stopped s \<Longrightarrow> au_stopped (audit_step d ev s)"
  by (cases ev) (simp_all add: audit_step_def audit_Close_def)

lemma audit_step_Close [simp]: "au_stopped (audit_step d Close s)"
  by (simp add: audit_step_def audit_Close_def)

lemma audit_run_snoc: "audit_run d (evs @ [ev]) s = audit_step d ev (audit_run d evs s)"
  by (simp add: audit_run_def)

lemma closed_after_snoc:
  assumes "closed_after quiet evs" and "ev \<noteq> Close" and "quiet \<longrightarrow> ev \<in> {Work, WorkerExit}"
  shows "closed_after quiet (evs @ [ev])"
proof -
  from assms(1) obtain xs ys where "evs = xs @ Close # ys" "Close \<notin> set xs" "Close \<notin> set ys" "quiet \<longrightarrow> set ys \<subseteq> {Work, WorkerExit}"
    unfolding closed_after_def by blast
  with assms(2,3) show ?thesis
    unfolding closed_after_def by (intro exI [of _ xs] exI [of _ "ys @ [ev]"]) auto
qed

lemma closed_after_Close: "Close \<notin> set evs \<Longrightarrow> closed_after quiet (evs @ [Close])"
  unfolding closed_after_def by (intro exI [of _ evs] exI [of _ "[]"]) simp

lemma not_exited [simp]:
  "\<not> is_exited Serving" "\<not> is_exited StoppingGrpc" "\<not> is_exited StoppingHttp" "\<not> is_exited (StoppingTask err)" "\<not> is_exited (ClosingAudit err)" "is_exited (Exited x)"
  by (simp_all add: is_exited_def)

lemma task_asked_map [simp]: "task_asked (map_loop (\<lambda>l. l\<lparr>tl_stopCh := True\<rparr>) t)"
  by (cases t) (simp_all add: task_asked_def map_loop_def)

lemma map_loop_eq_Panicking: "map_loop f t = Panicking \<longleftrightarrow> t = Panicking"
  by (cases t) (simp_all add: map_loop_def)

lemma task_cancelled [simp]:
  "task_asked (map_loop (\<lambda>l. l\<lparr>tl_ctxDone := True\<rparr>) t) = task_asked t" "task_stopped (map_loop (\<lambda>l. l\<lparr>tl_ctxDone := True\<rparr>) t) = task_stopped t"
  by (cases t; simp add: task_asked_def task_stopped_def map_loop_def Stop_returns_def)+

lemma task_stays_stopped:
  "loop_step round_of l l' \<Longrightarrow> task_stopped (Looping l) \<Longrightarrow> task_stopped (Looping l')"
  by (auto simp: task_stopped_def Stop_returns_def elim: loop_stepE)

lemma audit_inv_does:
  assumes "audit_inv d a s" and "\<not> is_exited (rn_phase s)" and "ev \<noteq> Close" and "orderly (rn_phase s) \<longrightarrow> ev \<in> {Work, WorkerExit}"
  shows "audit_inv d a (audit_does d ev s)"
proof -
  have late: "\<not> 5 \<le> stage (rn_phase s)" using assms(2) by (cases "rn_phase s" rule: stage.cases) simp_all
  have "closed_after (orderly (rn_phase s)) (rn_events s @ [ev])" if "4 \<le> stage (rn_phase s)"
    using that assms by (intro closed_after_snoc) (simp_all add: audit_inv_def)
  moreover have "rn_audit s = audit_run d (rn_events s) a" using assms(1) by (simp add: audit_inv_def)
  ultimately show ?thesis
    using assms(1,3) late by (simp add: audit_inv_def audit_run_snoc audit_step_stopped)
qed

lemma orderly_stage: "orderly ph \<Longrightarrow> 3 \<le> stage ph"
  by (cases ph rule: stage.cases) simp_all

lemma servers_inv_step:
  assumes "run_step d round_of s s'" and "servers_inv s"
  shows "servers_inv s'"
  using assms(1)
proof cases
  case RequestStarted
  with assms(2) show ?thesis using orderly_stage [of "rn_phase s"] by (auto simp: servers_inv_def)
qed (use assms(2) in \<open>auto simp: servers_inv_def main_defs Let_def split: option.splits\<close>)

lemma task_inv_step:
  assumes "run_step d round_of s s'" and "task_inv s"
  shows "task_inv s'"
  using assms(1)
proof cases
  case (TaskStepped l l')
  then have "task_asked (rn_task s) = task_asked (Looping l')" "task_stopped (rn_task s) \<Longrightarrow> task_stopped (Looping l')"
    by (auto simp: task_asked_def intro: task_stays_stopped)
  with assms(2) TaskStepped show ?thesis by (simp add: task_inv_def)
qed (use assms(2) in \<open>auto simp: task_inv_def main_defs Let_def split: option.splits\<close>)

lemma audit_inv_step:
  assumes "run_step d round_of s s'" and "audit_inv d a s" and "servers_inv s"
  shows "audit_inv d a s'"
  using assms(1)
proof cases
  case (TaskStopped err)
  with assms(2) show ?thesis
    by (simp add: audit_inv_def deferred_Close_def audit_run_snoc closed_after_Close)
next
  case (AuditClosed err)
  with assms(2) show ?thesis by (cases err) (simp_all add: audit_inv_def main_exit_def)
next
  case (DecisionEmitted now rec)
  then have "\<not> orderly (rn_phase s)"
    using assms(3) by (cases "rn_phase s") (auto simp: servers_inv_def)
  with DecisionEmitted show ?thesis using audit_inv_does [OF assms(2)] by simp
next
  case (WorkerStepped ev)
  then show ?thesis using audit_inv_does [OF assms(2)] by auto
qed (use assms(2) in \<open>simp_all add: audit_inv_def main_defs Let_def\<close>)

lemma run_steps_inv:
  assumes "(run_step d round_of)\<^sup>*\<^sup>* (run_serving now p a) s"
  shows "servers_inv s \<and> task_inv s \<and> audit_inv d a s"
  using assms
proof (induction rule: rtranclp_induct)
  case base
  show ?case by (simp add: servers_inv_def task_inv_def audit_inv_def run_serving_def audit_run_def)
next
  case (step s s')
  then show ?case using servers_inv_step task_inv_step audit_inv_step by blast
qed

section \<open>A clean exit\<close>

lemma worker_keeps_store:
  assumes "au_syncPersist s" and "set ys \<subseteq> {Work, WorkerExit}"
  shows "au_store (audit_run d ys s) = au_store s"
  using assms
proof (induction ys arbitrary: s)
  case (Cons ev ys)
  have "au_store (audit_step d ev s) = au_store s" using Cons.prems audit_work_sync [of s d] by (auto simp: audit_step_def)
  with Cons show ?case by (simp add: audit_run_def)
qed (simp add: audit_run_def)

lemma closed_audit:
  assumes "closed_after True evs"
  obtains xs ys where "evs = xs @ Close # ys" and "Close \<notin> set xs" and "set ys \<subseteq> {Work, WorkerExit}"
    and "au_syncPersist a \<longrightarrow> au_store (audit_run d evs a) = au_store (audit_run d xs a)"
proof -
  from assms obtain xs ys where evs: "evs = xs @ Close # ys" "Close \<notin> set xs" "set ys \<subseteq> {Work, WorkerExit}" by (auto simp: closed_after_def)
  have "au_store (audit_run d evs a) = au_store (audit_run d xs a)" if "au_syncPersist a"
  proof -
    have "au_syncPersist (audit_run d xs a)" using that by (induction xs arbitrary: a) (simp_all add: audit_run_def)
    then have "au_syncPersist (audit_Close (audit_run d xs a))" by (simp add: audit_Close_def)
    from worker_keeps_store [OF this evs(3), of d] show ?thesis by (simp add: evs(1) audit_run_def audit_step_def) (simp add: audit_Close_def)
  qed
  with evs that show thesis by blast
qed

text \<open>
  C33: A process that exits without an error was asked to, has no call or request in flight and accepts none, its bundle
  task and its audit worker have stopped, and the audit service was closed after the last decision was emitted; with
  synchronous persistence the store is the one which that decision left. Calls over gRPC are waited for even when the
  shutdown runs out of time; only HTTP requests can then still be in flight.
\<close>
theorem clean_shutdown:
  assumes "(run_step d round_of)\<^sup>*\<^sup>* (run_serving now p a) s"
  shows "(rn_phase s = Exited ExitOK \<longrightarrow>
       rn_ctxDone s \<and> \<not> rn_grpcServing s \<and> \<not> rn_httpServing s \<and> rn_rpcs s = 0 \<and> rn_requests s = 0
       \<and> task_stopped (rn_task s) \<and> \<not> au_running (rn_audit s)
       \<and> (\<exists>xs ys. rn_events s = xs @ Close # ys \<and> Close \<notin> set xs \<and> set ys \<subseteq> {Work, WorkerExit} \<and> rn_audit s = audit_run d (rn_events s) a
             \<and> (au_syncPersist a \<longrightarrow> au_store (rn_audit s) = au_store (audit_run d xs a))))
    \<and> (\<forall>err. rn_phase s = ClosingAudit err \<longrightarrow> rn_ctxDone s \<and> rn_rpcs s = 0 \<and> \<not> rn_httpServing s \<and> task_stopped (rn_task s))"
proof -
  have inv: "servers_inv s" "task_inv s" "audit_inv d a s" using run_steps_inv [OF assms] by simp_all
  have "\<exists>xs ys. rn_events s = xs @ Close # ys \<and> Close \<notin> set xs \<and> set ys \<subseteq> {Work, WorkerExit} \<and> rn_audit s = audit_run d (rn_events s) a
             \<and> (au_syncPersist a \<longrightarrow> au_store (rn_audit s) = au_store (audit_run d xs a))" if "rn_phase s = Exited ExitOK"
  proof -
    have "closed_after True (rn_events s)" and run: "rn_audit s = audit_run d (rn_events s) a" using inv(3) that by (simp_all add: audit_inv_def)
    from this(1) obtain xs ys where "rn_events s = xs @ Close # ys" "Close \<notin> set xs" "set ys \<subseteq> {Work, WorkerExit}"
      "au_syncPersist a \<longrightarrow> au_store (audit_run d (rn_events s) a) = au_store (audit_run d xs a)"
      by (rule closed_audit [where d = d and a = a])
    with run show ?thesis by auto
  qed
  then show ?thesis using inv by (auto simp: servers_inv_def task_inv_def audit_inv_def)
qed

section \<open>Progress of the shutdown\<close>

lemma drain_rpcs: "\<not> is_exited (rn_phase s) \<Longrightarrow> (run_step d round_of)\<^sup>*\<^sup>* s (s\<lparr>rn_rpcs := 0\<rparr>)"
proof (induction "rn_rpcs s" arbitrary: s)
  case 0
  then have "s\<lparr>rn_rpcs := 0\<rparr> = s" by (cases s) simp
  then show ?case by simp
next
  case (Suc n)
  have "run_step d round_of s (s\<lparr>rn_rpcs := n\<rparr>)" using Suc by (intro RpcFinished) simp_all
  moreover have "(run_step d round_of)\<^sup>*\<^sup>* (s\<lparr>rn_rpcs := n\<rparr>) (s\<lparr>rn_rpcs := 0\<rparr>)" using Suc.hyps(1) [of "s\<lparr>rn_rpcs := n\<rparr>"] Suc.prems by simp
  ultimately show ?case by (rule converse_rtranclp_into_rtranclp)
qed

lemma drain_requests: "\<not> is_exited (rn_phase s) \<Longrightarrow> (run_step d round_of)\<^sup>*\<^sup>* s (s\<lparr>rn_requests := 0\<rparr>)"
proof (induction "rn_requests s" arbitrary: s)
  case 0
  then have "s\<lparr>rn_requests := 0\<rparr> = s" by (cases s) simp
  then show ?case by simp
next
  case (Suc n)
  have "run_step d round_of s (s\<lparr>rn_requests := n\<rparr>)" using Suc by (intro RequestFinished) simp_all
  moreover have "(run_step d round_of)\<^sup>*\<^sup>* (s\<lparr>rn_requests := n\<rparr>) (s\<lparr>rn_requests := 0\<rparr>)" using Suc.hyps(1) [of "s\<lparr>rn_requests := n\<rparr>"] Suc.prems by simp
  ultimately show ?case by (rule converse_rtranclp_into_rtranclp)
qed

lemma exit_from_closing:
  assumes "rn_phase s = ClosingAudit err" and "au_stopped (rn_audit s)"
  shows "\<exists>s'. (run_step d round_of)\<^sup>*\<^sup>* s s' \<and> rn_phase s' = Exited (main_exit err)"
proof -
  let ?s = "audit_does d WorkerExit s"
  have "run_step d round_of s ?s" using assms(1) by (intro WorkerStepped) simp_all
  moreover have "run_step d round_of ?s (?s\<lparr>rn_phase := Exited (main_exit err)\<rparr>)"
    using assms by (intro AuditClosed) (simp_all add: audit_step_def)
  ultimately have "(run_step d round_of)\<^sup>*\<^sup>* s (?s\<lparr>rn_phase := Exited (main_exit err)\<rparr>)" by simp
  then show ?thesis by (intro exI [of _ "?s\<lparr>rn_phase := Exited (main_exit err)\<rparr>"]) simp
qed

lemma exit_from_stopping:
  assumes "rn_phase s = StoppingTask err" and "task_asked (rn_task s)" and "rn_task s \<noteq> Panicking"
  shows "\<exists>s'. (run_step d round_of)\<^sup>*\<^sup>* s s' \<and> rn_phase s' = Exited (main_exit err)"
proof -
  obtain s1 where s1: "(run_step d round_of)\<^sup>*\<^sup>* s s1" "rn_phase s1 = StoppingTask err" "task_stopped (rn_task s1)"
  proof (cases "task_stopped (rn_task s)")
    case True
    then show ?thesis using that [of s] assms(1) by simp
  next
    case False
    with assms(2,3) obtain l where l: "rn_task s = Looping l" "tl_stopCh l" "\<not> tl_stoppedCh l"
      by (cases "rn_task s") (auto simp: task_asked_def task_stopped_def Stop_returns_def)
    let ?s = "s\<lparr>rn_task := Looping (l\<lparr>tl_stoppedCh := True\<rparr>)\<rparr>"
    have "run_step d round_of s ?s"
      using assms(1) l by (intro TaskStepped [of s l]) (auto intro: LoopReturned)
    then show ?thesis using that [of ?s] l assms(1) by (simp add: task_stopped_def Stop_returns_def r_into_rtranclp)
  qed
  have "run_step d round_of s1 (deferred_Close d err s1)" using s1(2,3) by (rule TaskStopped)
  moreover have "\<exists>s'. (run_step d round_of)\<^sup>*\<^sup>* (deferred_Close d err s1) s' \<and> rn_phase s' = Exited (main_exit err)"
    by (rule exit_from_closing) (simp_all add: deferred_Close_def)
  ultimately show ?thesis using s1(1) by (meson converse_rtranclp_into_rtranclp rtranclp_trans)
qed

lemma exit_from_http:
  assumes "rn_phase s = StoppingHttp" and "rn_task s \<noteq> Panicking"
  shows "\<exists>s'. (run_step d round_of)\<^sup>*\<^sup>* s s' \<and> rn_phase s' = Exited ExitOK"
proof -
  let ?s = "s\<lparr>rn_requests := 0\<rparr>"
  have "(run_step d round_of)\<^sup>*\<^sup>* s ?s" using assms(1) by (intro drain_requests) simp
  moreover have "run_step d round_of ?s (deferred_Stop None ?s)" using assms(1) by (intro HttpDrained) simp_all
  moreover have "\<exists>s'. (run_step d round_of)\<^sup>*\<^sup>* (deferred_Stop None ?s) s' \<and> rn_phase s' = Exited (main_exit None)"
    using assms(2) by (intro exit_from_stopping) (simp_all add: deferred_Stop_def map_loop_eq_Panicking)
  ultimately show ?thesis by (simp add: main_exit_def) (meson converse_rtranclp_into_rtranclp rtranclp_trans)
qed

lemma exit_from_grpc:
  assumes "rn_phase s = StoppingGrpc" and "rn_task s \<noteq> Panicking"
  shows "\<exists>s'. (run_step d round_of)\<^sup>*\<^sup>* s s' \<and> rn_phase s' = Exited ExitOK"
proof -
  let ?s = "s\<lparr>rn_rpcs := 0\<rparr>"
  have "(run_step d round_of)\<^sup>*\<^sup>* s ?s" using assms(1) by (intro drain_rpcs) simp
  moreover have "run_step d round_of ?s (call_Shutdown ?s)" using assms(1) by (intro GrpcStopped) simp_all
  moreover have "\<exists>s'. (run_step d round_of)\<^sup>*\<^sup>* (call_Shutdown ?s) s' \<and> rn_phase s' = Exited ExitOK"
    using assms(2) by (intro exit_from_http) (simp_all add: call_Shutdown_def)
  ultimately show ?thesis by (meson converse_rtranclp_into_rtranclp rtranclp_trans)
qed

lemma exit_from_serving:
  assumes "rn_phase s = Serving" and "rn_ctxDone s" and "rn_task s \<noteq> Panicking"
  shows "\<exists>s'. (run_step d round_of)\<^sup>*\<^sup>* s s' \<and> rn_phase s' = Exited ExitOK"
proof -
  have "run_step d round_of s (shutting_down s)" using assms(1,2) by (rule ShuttingDown)
  moreover have "\<exists>s'. (run_step d round_of)\<^sup>*\<^sup>* (shutting_down s) s' \<and> rn_phase s' = Exited ExitOK"
  proof (cases "rn_grpc s")
    case True
    then show ?thesis using assms(3) by (intro exit_from_grpc) (simp_all add: shutting_down_def Let_def)
  next
    case False
    then show ?thesis using assms(3) by (intro exit_from_http) (simp_all add: shutting_down_def call_Shutdown_def Let_def)
  qed
  ultimately show ?thesis by (meson converse_rtranclp_into_rtranclp)
qed

text \<open>
  C34: The shutdown never gets stuck: once the context is cancelled an exit can be reached from every state, unless the
  task's goroutine is about to panic, and a clean one as long as \<^verbatim>\<open>Shutdown\<close> has not returned. It is not bounded in
  time, though: while a gRPC call is in flight, the process stays in \<^verbatim>\<open>GracefulStop\<close>, however long ago the ten seconds
  have passed, or dies without its deferred calls.
\<close>
theorem shutdown_progress:
  assumes "(run_step d round_of)\<^sup>*\<^sup>* (run_serving now p a) s" and "rn_ctxDone s" and "\<not> is_exited (rn_phase s)" and "rn_task s \<noteq> Panicking"
  shows "(\<exists>s' x. (run_step d round_of)\<^sup>*\<^sup>* s s' \<and> rn_phase s' = Exited x \<and> (rn_phase s \<in> {Serving, StoppingGrpc, StoppingHttp} \<longrightarrow> x = ExitOK))
    \<and> (\<forall>s'. rn_phase s = StoppingGrpc \<and> 0 < rn_rpcs s \<and> run_step d round_of s s' \<longrightarrow>
         rn_phase s' = StoppingGrpc \<or> (\<exists>msg. rn_phase s' = Exited (ExitFatal (''listen: '' @ msg))))"
proof -
  have "task_inv s" "audit_inv d a s" using run_steps_inv [OF assms(1)] by simp_all
  then have "\<exists>s' x. (run_step d round_of)\<^sup>*\<^sup>* s s' \<and> rn_phase s' = Exited x \<and> (rn_phase s \<in> {Serving, StoppingGrpc, StoppingHttp} \<longrightarrow> x = ExitOK)"
    using assms(2-4) exit_from_serving [of s d round_of] exit_from_grpc [of s d round_of] exit_from_http [of s d round_of]
      exit_from_stopping [of s _ d round_of] exit_from_closing [of s _ d round_of]
    by (cases "rn_phase s") (fastforce simp: task_inv_def audit_inv_def)+
  moreover have "rn_phase s' = StoppingGrpc \<or> (\<exists>msg. rn_phase s' = Exited (ExitFatal (''listen: '' @ msg)))"
    if "rn_phase s = StoppingGrpc" "0 < rn_rpcs s" "run_step d round_of s s'" for s'
    using that(3,1,2) assms(4) by cases simp_all
  ultimately show ?thesis by blast
qed

section \<open>The bundle task\<close>

lemma run_task_keeps:
  assumes "(run_step d round_of)\<^sup>*\<^sup>* s s'" and "\<forall>l. rn_task s = Looping l \<longrightarrow> P (tl_work l)" and "\<And>h h'. P h \<Longrightarrow> round_of h h' \<Longrightarrow> P h'"
  shows "\<forall>l. rn_task s' = Looping l \<longrightarrow> P (tl_work l)"
  using assms(1,2)
proof (induction rule: rtranclp_induct)
  case (step s s')
  then have work: "\<forall>l. rn_task s = Looping l \<longrightarrow> P (tl_work l)" by simp
  from step(2) show ?case
  proof cases
    case (TaskStepped l l')
    with work have "P (tl_work l)" by simp
    moreover have "(loop_step round_of)\<^sup>*\<^sup>* l l'" using TaskStepped(4) by (rule r_into_rtranclp)
    ultimately have "P (tl_work l')" using assms(3) by (intro loop_keeps [of round_of l l' P])
    with TaskStepped show ?thesis by simp
  qed (use work in \<open>auto simp: main_defs Let_def map_loop_def split: task_loop.splits if_splits\<close>)
qed

text \<open>During the whole life of a process whose reloader started on a fresh engine, shutdown included, the reloader's engine is consistent.\<close>

theorem reloader_in_process:
  assumes "(run_step d (task_round sha256hex opa))\<^sup>*\<^sup>* (run_serving now p a) s" and "rn_task s = Looping l"
    and "pr_task p = Reloader (NewHotReloader opa getenv url interval (Some (NewOPAEngine opa (Some b0))))"
  shows "\<exists>h. tl_work l = Reloader h \<and> reload_ok opa b0 h"
proof -
  let ?P = "\<lambda>t. \<exists>h. t = Reloader h \<and> reload_ok opa b0 h"
  have start: "\<forall>l. rn_task (run_serving now p a) = Looping l \<longrightarrow> ?P (tl_work l)"
    using assms(3) reload_loop_ok [of sha256hex opa getenv url interval b0, OF rtranclp.rtrancl_refl]
    by (auto simp: run_serving_def start_loop_def loop_run_def loop_Start_def split: option.splits if_splits)
  have "?P t'" if "?P t" "task_round sha256hex opa t t'" for t t'
  proof -
    from that obtain h h' where "reload_ok opa b0 h" "reload_round sha256hex opa h h'" "t' = Reloader h'" by auto
    with reload_round_ok [OF this(1,2)] show ?thesis by simp
  qed
  with run_task_keeps [OF assms(1) start] assms(2) show ?thesis by blast
qed

section \<open>Instances\<close>

definition demo_process :: "(unit, string, string, unit, unit) process" where
  "demo_process = \<lparr>pr_services = (), pr_http = NewServer '':8080'', pr_grpc = Some None, pr_task = Polling (NewPoller (\<lambda>_. []) ''http://b'' 0 None True)\<rparr>"

abbreviation demo_serving :: "((string, string) bundle_task, audit_memory, memory_sink) running" where
  "demo_serving \<equiv> run_serving 0 demo_process (WithSyncPersist (au_NewService au_NewMemoryStore NewMemorySink 1))"

abbreviation demo_step :: "((string, string) bundle_task, audit_memory, memory_sink) running \<Rightarrow> ((string, string) bundle_task, audit_memory, memory_sink) running \<Rightarrow> bool" where
  "demo_step \<equiv> run_step demo_deps (task_round (\<lambda>_. ''7'') demo_opa)"

lemma demo_task: "\<exists>l. rn_task demo_serving = Looping l"
proof -
  have "0 < sint (po_interval (NewPoller (\<lambda>_. []) ''http://b'' 0 (None :: (string, string) opa_engine option) True))" by code_simp
  then show ?thesis by (simp add: run_serving_def demo_process_def start_loop_def loop_run_def)
qed

text \<open>A call emits a decision and is still in flight when the process is asked to stop.\<close>

definition demo_in_flight :: "((string, string) bundle_task, audit_memory, memory_sink) running" where
  "demo_in_flight = (let s = audit_does demo_deps (Emit 5 (demo_record ''d'')) (demo_serving\<lparr>rn_rpcs := 1\<rparr>)
     in s\<lparr>rn_ctxDone := True, rn_task := map_loop (\<lambda>l. l\<lparr>tl_ctxDone := True\<rparr>) (rn_task s)\<rparr>)"

lemma demo_in_flight_steps: "demo_step\<^sup>*\<^sup>* demo_serving demo_in_flight"
proof -
  let ?s1 = "demo_serving\<lparr>rn_rpcs := Suc (rn_rpcs demo_serving)\<rparr>"
  let ?s2 = "audit_does demo_deps (Emit 5 (demo_record ''d'')) ?s1"
  have ph: "rn_phase demo_serving = Serving" "rn_rpcs demo_serving = 0" "rn_grpcServing demo_serving"
    by (simp_all add: run_serving_def demo_process_def)
  have "demo_step demo_serving ?s1" using ph by (intro RpcStarted) simp_all
  moreover have "demo_step ?s1 ?s2" using ph by (intro DecisionEmitted) simp_all
  moreover have "demo_step ?s2 (?s2\<lparr>rn_ctxDone := True, rn_task := map_loop (\<lambda>l. l\<lparr>tl_ctxDone := True\<rparr>) (rn_task ?s2)\<rparr>)"
    using ph by (intro Signalled) simp_all
  ultimately show ?thesis by (simp add: demo_in_flight_def Let_def ph)
qed

lemma demo_in_flight_fields: "rn_phase demo_in_flight = Serving" "rn_ctxDone demo_in_flight" "rn_task demo_in_flight \<noteq> Panicking"
  using demo_task by (auto simp: demo_in_flight_def Let_def map_loop_eq_Panicking) (simp add: run_serving_def)

theorem clean_shutdown_witness:
  "\<exists>s xs ys. demo_step\<^sup>*\<^sup>* demo_in_flight s \<and> rn_phase s = Exited ExitOK \<and> rn_rpcs s = 0 \<and> task_stopped (rn_task s)
     \<and> rn_events s = xs @ Close # ys \<and> set ys \<subseteq> {Work, WorkerExit}"
proof -
  obtain s where s: "demo_step\<^sup>*\<^sup>* demo_in_flight s" "rn_phase s = Exited ExitOK"
    using exit_from_serving [OF demo_in_flight_fields, of demo_deps "task_round (\<lambda>_. ''7'') demo_opa"] by blast
  then have "demo_step\<^sup>*\<^sup>* demo_serving s" using demo_in_flight_steps by (blast intro: rtranclp_trans)
  from clean_shutdown [OF this] s show ?thesis by blast
qed

theorem shutdown_progress_witness:
  "\<exists>s. demo_step\<^sup>*\<^sup>* demo_in_flight s \<and> rn_phase s = Exited ExitOK"
  using shutdown_progress [OF demo_in_flight_steps] demo_in_flight_fields by auto

end
