(* ===== verification/Redis_Counter.thy ===== *)
theory Redis_Counter
  imports Remote Velocity
begin

text \<open>
  The Redis velocity counter (\<^verbatim>\<open>internal/velocity/redis.go\<close>) over a keyspace of decimal texts with optional
  expiry: \<^verbatim>\<open>INCR\<close>, \<^verbatim>\<open>EXPIRE\<close>, the rollback script and \<^verbatim>\<open>GET\<close> as the server executes them, each of which may
  fail or lose its reply. Without failures the counter keeps the contract \<open>velocity_counter\<close> for windows of whole
  seconds, so what is proved of that contract holds of it. The clock passed to an operation is the server's.
\<close>

section \<open>The keyspace\<close>

record redis_entry =
  rk_value :: string
  rk_expire :: "gotime option"

type_synonym redis = "string \<rightharpoonup> redis_entry"

definition redis_live :: "gotime \<Rightarrow> redis \<Rightarrow> string \<Rightarrow> redis_entry option" where
  "redis_live now s k =
     (case s k of
        None \<Rightarrow> None
      | Some e \<Rightarrow> (case rk_expire e of None \<Rightarrow> Some e | Some t \<Rightarrow> if time_After now t then None else Some e))"

definition redis_int :: "string \<Rightarrow> int option" where
  "redis_int v = (case Atoi v of (n, None) \<Rightarrow> if Itoa n = v then Some n else None | (_, Some _) \<Rightarrow> None)"

text \<open>\<^verbatim>\<open>INCR\<close> and \<^verbatim>\<open>DECR\<close> keep the expiry of a key that is there and create it without one otherwise.\<close>

definition redis_add :: "gotime \<Rightarrow> string \<Rightarrow> int \<Rightarrow> redis \<Rightarrow> (int \<times> redis) result" where
  "redis_add now k d s =
     (case (case redis_live now s k of None \<Rightarrow> Some (0, None) | Some e \<Rightarrow> map_option (\<lambda>n. (n, rk_expire e)) (redis_int (rk_value e))) of
        None \<Rightarrow> Inl (ErrorNew ''ERR value is not an integer or out of range'')
      | Some (n, expire) \<Rightarrow>
          if - (2 ^ 63) \<le> n + d \<and> n + d < 2 ^ 63 then Inr (n + d, s(k \<mapsto> \<lparr>rk_value = Itoa (n + d), rk_expire = expire\<rparr>))
          else Inl (ErrorNew ''ERR increment or decrement would overflow''))"

definition redis_EXPIRE :: "gotime \<Rightarrow> string \<Rightarrow> int \<Rightarrow> redis \<Rightarrow> (unit \<times> redis) result" where
  "redis_EXPIRE now k secs s =
     (case redis_live now s k of
        None \<Rightarrow> Inr ((), s)
      | Some e \<Rightarrow> if secs \<le> 0 then Inr ((), s(k := None)) else Inr ((), s(k \<mapsto> e\<lparr>rk_expire := Some (now + secs * 1000000000)\<rparr>)))"

text \<open>The client sends the length of a window in whole seconds, and at least one for a positive length.\<close>

definition formatSec :: "window \<Rightarrow> int" where
  "formatSec w =
     (if 0 < sint w \<and> sint w < 1000000000 then 1
      else if 0 \<le> sint w then sint w div 1000000000 else - ((- sint w) div 1000000000))"

definition rollback_script :: "gotime \<Rightarrow> string \<Rightarrow> redis \<Rightarrow> (int \<times> redis) result" where
  "rollback_script now k s =
     (case redis_add now k (- 1) s of
        Inl err \<Rightarrow> Inl err
      | Inr (v, s1) \<Rightarrow> if v < 0 then Inr (0, s1(k \<mapsto> \<lparr>rk_value = ''0'', rk_expire = None\<rparr>)) else Inr (v, s1))"

section \<open>The counter\<close>

record redis_counter =
  rc_prefix :: string

definition NewRedisCounter :: "string \<Rightarrow> redis_counter" where
  "NewRedisCounter pre = \<lparr>rc_prefix = (if pre = [] then ''vel'' else pre)\<rparr>"

definition redis_k :: "redis_counter \<Rightarrow> string \<Rightarrow> window \<Rightarrow> string" where
  "redis_k c userID w = rc_prefix c @ '':'' @ userID @ '':'' @ Suffix w"

definition redis_Increment :: "redis_counter \<Rightarrow> (nat \<Rightarrow> fault) \<Rightarrow> string \<Rightarrow> window \<Rightarrow> gotime \<Rightarrow> redis \<Rightarrow> i64 goret \<times> redis" where
  "redis_Increment c f userID w now s =
     (let k = redis_k c userID w
      in case exec (f 0) (redis_add now k 1) s of
           (Inl err, s1) \<Rightarrow> ((0, Some (Errorf ''redis incr: '' err)), s1)
         | (Inr v, s1) \<Rightarrow>
             (case exec (f 1) (redis_EXPIRE now k (formatSec w)) s1 of
                (Inl err, s2) \<Rightarrow> ((word_of_int v, Some (Errorf ''redis expire: '' err)), s2)
              | (Inr _, s2) \<Rightarrow> ((word_of_int v, None), s2)))"

text \<open>The lookup that follows a rollback to 0 changes neither the result nor the error, whatever it returns.\<close>

definition redis_Rollback :: "redis_counter \<Rightarrow> (nat \<Rightarrow> fault) \<Rightarrow> string \<Rightarrow> window \<Rightarrow> gotime \<Rightarrow> redis \<Rightarrow> i64 goret \<times> redis" where
  "redis_Rollback c f userID w now s =
     (let k = redis_k c userID w
      in case exec (f 0) (rollback_script now k) s of
           (Inl err, s1) \<Rightarrow> ((0, Some (Errorf ''redis rollback: '' err)), s1)
         | (Inr n, s1) \<Rightarrow>
             if n = 0 then
               (case query (f 1) (redis_live now s1 k) of
                  Inr (Some e) \<Rightarrow> if rk_value e = ''0'' then ((0, None), s1) else ((word_of_int n, None), s1)
                | _ \<Rightarrow> ((word_of_int n, None), s1))
             else ((word_of_int n, None), s1))"

definition redis_Get :: "redis_counter \<Rightarrow> (nat \<Rightarrow> fault) \<Rightarrow> string \<Rightarrow> window \<Rightarrow> gotime \<Rightarrow> redis \<Rightarrow> i64 goret" where
  "redis_Get c f userID w now s =
     (case query (f 0) (redis_live now s (redis_k c userID w)) of
        Inl err \<Rightarrow> (0, Some (Errorf ''redis get: '' err))
      | Inr None \<Rightarrow> (0, None)
      | Inr (Some e) \<Rightarrow>
          (case Atoi (rk_value e) of
             (n, None) \<Rightarrow> (word_of_int n, None)
           | (_, Some err) \<Rightarrow> (0, Some (Errorf ''redis get parse: '' err))))"

definition redis_ops :: "redis_counter \<Rightarrow> (nat \<Rightarrow> fault) \<Rightarrow> redis counter_ops" where
  "redis_ops c f = \<lparr>Increment = redis_Increment c f, Rollback = redis_Rollback c f, CounterGet = redis_Get c f\<rparr>"

section \<open>Counters without failures\<close>

abbreviation no_faults :: "nat \<Rightarrow> fault" where
  "no_faults \<equiv> \<lambda>_. NoFault"

definition redis_within :: "nat \<Rightarrow> redis \<Rightarrow> bool" where
  "redis_within n s \<longleftrightarrow> int n < 2 ^ 63 \<and> (\<forall>k e. s k = Some e \<longrightarrow> (\<exists>i. rk_value e = Itoa i \<and> 0 \<le> i \<and> i \<le> int n))"

definition whole_seconds :: "window \<Rightarrow> bool" where
  "whole_seconds w \<longleftrightarrow> 0 < sint w \<and> sint w mod 1000000000 = 0"

text \<open>The number a key stands for at an instant: 0 if it is absent or expired.\<close>

definition redis_count :: "gotime \<Rightarrow> redis \<Rightarrow> string \<Rightarrow> int" where
  "redis_count t s k = (case redis_live t s k of None \<Rightarrow> 0 | Some e \<Rightarrow> fst (Atoi (rk_value e)))"

lemma redis_live_stored: "redis_live t s k = Some e \<Longrightarrow> s k = Some e"
  by (auto simp: redis_live_def split: option.splits if_splits)

lemma redis_live_value:
  assumes "redis_within n s" and "redis_live t s k = Some e"
  shows "\<exists>i. rk_value e = Itoa i \<and> Atoi (rk_value e) = (i, None) \<and> redis_int (rk_value e) = Some i \<and> redis_count t s k = i \<and> 0 \<le> i \<and> i \<le> int n"
proof -
  from assms(1) redis_live_stored [OF assms(2)] obtain i where i: "rk_value e = Itoa i" "0 \<le> i" "i \<le> int n" "int n < 2 ^ 63"
    by (auto simp: redis_within_def)
  then have "Atoi (Itoa i) = (i, None)" by (intro Atoi_Itoa) auto
  with i assms(2) show ?thesis by (simp add: redis_int_def redis_count_def)
qed

lemma redis_count_bounds:
  assumes "redis_within n s"
  shows "0 \<le> redis_count t s k \<and> redis_count t s k \<le> int n"
  using redis_live_value [OF assms, of t k] by (cases "redis_live t s k") (auto simp: redis_count_def)

lemma redis_Get_count:
  assumes "redis_within n s"
  shows "redis_Get c no_faults u w t s = (word_of_int (redis_count t s (redis_k c u w)), None)"
proof (cases "redis_live t s (redis_k c u w)")
  case None
  then show ?thesis by (simp add: redis_Get_def query_def redis_count_def)
next
  case (Some e)
  with redis_live_value [OF assms Some] show ?thesis by (auto simp: redis_Get_def query_def)
qed

lemma redis_add_count:
  assumes "redis_within n s" and "- (2 ^ 63) \<le> redis_count now s k + d" and "redis_count now s k + d < 2 ^ 63"
  shows "redis_add now k d s = Inr (redis_count now s k + d,
    s(k \<mapsto> \<lparr>rk_value = Itoa (redis_count now s k + d), rk_expire = (case redis_live now s k of None \<Rightarrow> None | Some e \<Rightarrow> rk_expire e)\<rparr>))"
proof (cases "redis_live now s k")
  case None
  with assms(2,3) show ?thesis by (simp add: redis_add_def redis_count_def)
next
  case (Some e)
  from redis_live_value [OF assms(1) Some] obtain i where "redis_int (rk_value e) = Some i" "redis_count now s k = i" by blast
  with Some assms(2,3) show ?thesis by (simp add: redis_add_def)
qed

lemma redis_Increment_eq:
  fixes c :: redis_counter and u :: string and w :: window and now :: gotime and s :: redis
  assumes "redis_within n s" and "int n < 2 ^ 63 - 1"
  defines "k \<equiv> redis_k c u w" and "v \<equiv> redis_count now s (redis_k c u w) + 1"
  shows "fst (redis_Increment c no_faults u w now s) = (word_of_int v, None)
    \<and> (\<exists>x. snd (redis_Increment c no_faults u w now s) = s(k := x) \<and> (\<forall>e. x = Some e \<longrightarrow> rk_value e = Itoa v)
        \<and> (whole_seconds w \<longrightarrow> x = Some \<lparr>rk_value = Itoa v, rk_expire = Some (time_Add now w)\<rparr>))"
proof -
  define e where "e = \<lparr>rk_value = Itoa v, rk_expire = (case redis_live now s k of None \<Rightarrow> None | Some e \<Rightarrow> rk_expire e)\<rparr>"
  have b: "0 \<le> redis_count now s k" "redis_count now s k \<le> int n" using redis_count_bounds [OF assms(1)] by auto
  with assms(2) have add: "redis_add now k 1 s = Inr (v, s(k \<mapsto> e))"
    unfolding v_def k_def [symmetric] e_def by (intro redis_add_count [OF assms(1)]) linarith+
  have live: "redis_live now (s(k \<mapsto> e)) k = Some e"
    by (auto simp: e_def redis_live_def split: option.splits if_splits)
  have sec: "whole_seconds w \<Longrightarrow> formatSec w > 0 \<and> now + formatSec w * 1000000000 = time_Add now w"
    unfolding whole_seconds_def formatSec_def time_Add_def by (auto simp: zmod_eq_0_iff)
  have "redis_EXPIRE now k (formatSec w) (s(k \<mapsto> e)) =
    Inr ((), s(k := if formatSec w \<le> 0 then None else Some (e\<lparr>rk_expire := Some (now + formatSec w * 1000000000)\<rparr>)))"
    by (simp add: redis_EXPIRE_def live)
  with add have "redis_Increment c no_faults u w now s =
    ((word_of_int v, None), s(k := if formatSec w \<le> 0 then None else Some (e\<lparr>rk_expire := Some (now + formatSec w * 1000000000)\<rparr>)))"
    by (simp add: redis_Increment_def exec_def k_def)
  with sec show ?thesis
    by (intro conjI exI [where x = "if formatSec w \<le> 0 then None else Some (e\<lparr>rk_expire := Some (now + formatSec w * 1000000000)\<rparr>)"])
      (auto simp: e_def)
qed

lemma redis_Rollback_eq:
  fixes c :: redis_counter and u :: string and w :: window and now :: gotime and s :: redis
  assumes "redis_within n s"
  defines "k \<equiv> redis_k c u w" and "v \<equiv> redis_count now s (redis_k c u w)"
  shows "redis_Rollback c no_faults u w now s =
    (if v = 0 then ((0, None), s(k \<mapsto> \<lparr>rk_value = ''0'', rk_expire = None\<rparr>))
     else ((word_of_int (v - 1), None), s(k \<mapsto> (the (s k))\<lparr>rk_value := Itoa (v - 1)\<rparr>)))"
proof -
  have b: "0 \<le> v" "v \<le> int n" "int n < 2 ^ 63"
    using redis_count_bounds [OF assms(1), of now k] assms(1) by (auto simp: v_def k_def redis_within_def)
  have add: "redis_add now k (- 1) s = Inr (v + - 1, s(k \<mapsto> \<lparr>rk_value = Itoa (v + - 1),
      rk_expire = (case redis_live now s k of None \<Rightarrow> None | Some e \<Rightarrow> rk_expire e)\<rparr>))"
    using b unfolding v_def k_def by (intro redis_add_count [OF assms(1)]) linarith+
  show ?thesis
  proof (cases "v = 0")
    case True
    with add show ?thesis
      by (auto simp: redis_Rollback_def rollback_script_def exec_def query_def k_def [symmetric] split: option.splits)
  next
    case False
    then obtain e where e: "redis_live now s k = Some e"
      by (cases "redis_live now s k") (auto simp: v_def k_def redis_count_def)
    with redis_live_stored [OF e] add b False show ?thesis
      by (cases e) (auto simp: redis_Rollback_def rollback_script_def exec_def query_def k_def [symmetric] split: option.splits)
  qed
qed

lemma redis_add_frame: "redis_add now k d s = Inr (v, s') \<Longrightarrow> k' \<noteq> k \<Longrightarrow> s' k' = s k'"
  by (auto simp: redis_add_def split: option.splits prod.splits if_splits)

lemma redis_EXPIRE_frame: "redis_EXPIRE now k secs s = Inr (v, s') \<Longrightarrow> k' \<noteq> k \<Longrightarrow> s' k' = s k'"
  by (auto simp: redis_EXPIRE_def split: option.splits if_splits)

lemma rollback_script_frame: "rollback_script now k s = Inr (v, s') \<Longrightarrow> k' \<noteq> k \<Longrightarrow> s' k' = s k'"
  using redis_add_frame by (auto simp: rollback_script_def split: sum.splits if_splits)

text \<open>An operation changes its own key only, whatever fails.\<close>

lemma redis_frame:
  assumes "k' \<noteq> redis_k c u w"
  shows "snd (redis_Increment c f u w now s) k' = s k'" and "snd (redis_Rollback c f u w now s) k' = s k'"
proof -
  let ?k = "redis_k c u w"
  have e1: "snd (exec (f 0) (redis_add now ?k 1) s) k' = s k'"
    by (rule exec_keeps [where P = "\<lambda>x. x k' = s k'"]) (use assms redis_add_frame in auto)
  have e2: "snd (exec (f 1) (redis_EXPIRE now ?k x) s1) k' = s1 k'" for x s1
    by (rule exec_keeps [where P = "\<lambda>x. x k' = s1 k'"]) (use assms redis_EXPIRE_frame in auto)
  have e3: "snd (exec (f 0) (rollback_script now ?k) s) k' = s k'"
    by (rule exec_keeps [where P = "\<lambda>x. x k' = s k'"]) (use assms rollback_script_frame in auto)
  show "snd (redis_Increment c f u w now s) k' = s k'"
  proof (cases "exec (f 0) (redis_add now ?k 1) s")
    case (Pair r s1)
    with e1 have "s1 k' = s k'" by simp
    with e2 [of "formatSec w" s1] Pair show ?thesis
      by (cases "exec (f 1) (redis_EXPIRE now ?k (formatSec w)) s1")
        (auto simp: redis_Increment_def Let_def split: sum.splits)
  qed
  show "snd (redis_Rollback c f u w now s) k' = s k'"
    using e3 by (cases "exec (f 0) (rollback_script now ?k) s")
      (simp add: redis_Rollback_def Let_def split: sum.splits option.splits)
qed

lemma redis_Get_frame:
  assumes "s' (redis_k c u w) = s (redis_k c u w)"
  shows "redis_Get c f u w t s' = redis_Get c f u w t s"
  using assms by (simp add: redis_Get_def redis_live_def)

lemma redis_k_eq: "redis_k c u w = redis_k c u' w' \<longleftrightarrow> velocity_key u w = velocity_key u' w'"
  by (simp add: redis_k_def velocity_key_def)

lemma redis_within_upd:
  assumes "redis_within n s" and "n \<le> m" and "int m < 2 ^ 63" and "\<And>e. x = Some e \<Longrightarrow> \<exists>i. rk_value e = Itoa i \<and> 0 \<le> i \<and> i \<le> int m"
  shows "redis_within m (s(k := x))"
  using assms unfolding redis_within_def by (auto split: if_splits) (meson of_nat_mono order_trans)

lemma redis_Increment_within:
  assumes "redis_within n s" and "int n < 2 ^ 63 - 1"
  shows "redis_within (Suc n) (snd (redis_Increment c no_faults u w now s))"
proof -
  from redis_Increment_eq [OF assms, of c u w now] obtain x where
    x: "snd (redis_Increment c no_faults u w now s) = s(redis_k c u w := x)" "\<And>e. x = Some e \<Longrightarrow> rk_value e = Itoa (redis_count now s (redis_k c u w) + 1)"
    by blast
  show ?thesis unfolding x(1)
    by (rule redis_within_upd [OF assms(1)]) (use assms(2) x(2) redis_count_bounds [OF assms(1), of now "redis_k c u w"] in auto)
qed

lemma redis_Rollback_within:
  assumes "redis_within n s"
  shows "redis_within n (snd (redis_Rollback c no_faults u w now s))"
proof -
  have z: "''0'' = Itoa 0" by code_simp
  have b: "0 \<le> redis_count now s (redis_k c u w)" "redis_count now s (redis_k c u w) \<le> int n" "int n < 2 ^ 63"
    using redis_count_bounds [OF assms] assms by (auto simp: redis_within_def)
  show ?thesis
    unfolding redis_Rollback_eq [OF assms] using b
    by (auto intro!: redis_within_upd [OF assms] simp: z)
qed

lemma redis_Rollback_count:
  assumes "redis_within n s" and "now \<le> t"
  shows "redis_count t (snd (redis_Rollback c no_faults u w now s)) (redis_k c u w) = max 0 (redis_count t s (redis_k c u w) - 1)"
proof -
  let ?k = "redis_k c u w" and ?v = "redis_count now s (redis_k c u w)"
  have z: "Atoi ''0'' = (0, None)" by code_simp
  have b: "0 \<le> ?v" "?v \<le> int n" "int n < 2 ^ 63"
    using redis_count_bounds [OF assms(1)] assms(1) by (auto simp: redis_within_def)
  show ?thesis
  proof (cases "?v = 0")
    case True
    have "redis_count t s ?k = 0"
    proof (cases "redis_live t s ?k")
      case (Some e)
      then have "redis_live now s ?k = Some e" using assms(2)
        by (auto simp: redis_live_def time_After_def split: option.splits if_splits)
      with True Some show ?thesis by (simp add: redis_count_def)
    qed (simp add: redis_count_def)
    with True show ?thesis by (simp add: redis_Rollback_eq [OF assms(1)] redis_count_def redis_live_def z)
  next
    case False
    then obtain e where e: "redis_live now s ?k = Some e" by (cases "redis_live now s ?k") (auto simp: redis_count_def)
    have se: "s ?k = Some e" using redis_live_stored [OF e] .
    have a: "Atoi (Itoa (?v - 1)) = (?v - 1, None)" using b by (intro Atoi_Itoa) auto
    have "redis_live t s ?k = (case rk_expire e of None \<Rightarrow> Some e | Some x \<Rightarrow> if time_After t x then None else Some e)"
      by (simp add: redis_live_def se)
    moreover have "?v = fst (Atoi (rk_value e))" by (simp add: redis_count_def e)
    ultimately show ?thesis using False b a se
      by (auto simp: redis_Rollback_eq [OF assms(1)] redis_count_def redis_live_def split: option.splits)
  qed
qed

interpretation rdc: velocity_counter "redis_ops c no_faults" redis_within whole_seconds for c
proof (unfold_locales, goal_cases)
  case (1 n s u w t)
  have b: "0 \<le> redis_count t s (redis_k c u w)" "redis_count t s (redis_k c u w) \<le> int n" "int n < 2 ^ 63"
    using redis_count_bounds [OF 1] 1 by (auto simp: redis_within_def)
  then show ?case by (simp add: redis_ops_def redis_Get_count [OF 1] sint_word_of_int_i64)
next
  case (2 n s u w now)
  then show ?case using redis_Increment_eq [OF 2, of c u w now] by (simp add: redis_ops_def redis_Get_count [OF 2(1)])
next
  case (3 n s w t now u)
  let ?v = "redis_count now s (redis_k c u w) + 1"
  have s': "snd (redis_Increment c no_faults u w now s) = s(redis_k c u w \<mapsto> \<lparr>rk_value = Itoa ?v, rk_expire = Some (time_Add now w)\<rparr>)"
    using redis_Increment_eq [OF 3(1,2), of c u w now] 3(3) by blast
  have "Atoi (Itoa ?v) = (?v, None)"
    using redis_count_bounds [OF 3(1), of now "redis_k c u w"] 3(2) by (intro Atoi_Itoa) auto
  then have "redis_count t (snd (redis_Increment c no_faults u w now s)) (redis_k c u w) = ?v"
    using 3(4) by (simp add: s' redis_count_def redis_live_def)
  then have "redis_Get c no_faults u w t (snd (redis_Increment c no_faults u w now s)) = (word_of_int ?v, None)"
    using redis_Get_count [OF redis_Increment_within [OF 3(1,2)]] by simp
  moreover have "fst (redis_Increment c no_faults u w now s) = (word_of_int ?v, None)"
    using redis_Increment_eq [OF 3(1,2), of c u w now] by blast
  ultimately show ?case by (simp only: redis_ops_def counter_ops.simps)
next
  case (4 n s w t now u)
  let ?v = "redis_count now s (redis_k c u w) + 1"
  have "snd (redis_Increment c no_faults u w now s) = s(redis_k c u w \<mapsto> \<lparr>rk_value = Itoa ?v, rk_expire = Some (time_Add now w)\<rparr>)"
    using redis_Increment_eq [OF 4(1,2), of c u w now] 4(3) by blast
  then have "redis_count t (snd (redis_Increment c no_faults u w now s)) (redis_k c u w) = 0"
    using 4(4) by (simp add: redis_count_def redis_live_def)
  then show ?case
    using redis_Get_count [OF redis_Increment_within [OF 4(1,2)], of c u w t c u w now] by (simp add: redis_ops_def)
next
  case (5 u w u' w' t s)
  then have "redis_k c u w = redis_k c u' w'" by (simp add: redis_k_eq)
  then show ?case by (simp add: redis_ops_def redis_Get_def)
next
  case (6 u' w' u w t now s)
  then have "redis_k c u' w' \<noteq> redis_k c u w" by (simp add: redis_k_eq)
  then have "snd (redis_Increment c no_faults u w now s) (redis_k c u' w') = s (redis_k c u' w')" by (rule redis_frame)
  then show ?case unfolding redis_ops_def counter_ops.simps by (rule redis_Get_frame)
next
  case (7 n s u w now)
  then show ?case by (simp add: redis_ops_def redis_Increment_within)
next
  case (8 n s now t u w)
  have b: "0 \<le> redis_count t s (redis_k c u w)" "redis_count t s (redis_k c u w) \<le> int n" "int n < 2 ^ 63"
    using redis_count_bounds [OF 8(1)] 8(1) by (auto simp: redis_within_def)
  then show ?case
    using 8 by (simp add: redis_ops_def redis_Get_count [OF 8(1)] redis_Get_count [OF redis_Rollback_within [OF 8(1)]] redis_Rollback_count sint_word_of_int_i64)
next
  case (9 u' w' u w t now s)
  then have "redis_k c u' w' \<noteq> redis_k c u w" by (simp add: redis_k_eq)
  then have "snd (redis_Rollback c no_faults u w now s) (redis_k c u' w') = s (redis_k c u' w')" by (rule redis_frame)
  then show ?case unfolding redis_ops_def counter_ops.simps by (rule redis_Get_frame)
next
  case (10 n s u w now)
  then show ?case by (simp add: redis_ops_def redis_Rollback_within)
qed

section \<open>Redis against the in-memory counter\<close>

interpretation mr: counter_pair memory_counter_ops memory_within "\<lambda>_. True" "redis_ops c no_faults" redis_within whole_seconds for c
  by unfold_locales

lemma redis_within_empty: "redis_within 0 Map.empty"
  by (simp add: redis_within_def)

text \<open>
  C15: The Redis counter and the in-memory counter are interchangeable while Redis does not fail: after the same
  increments and rollbacks, in the order of their times and for windows of whole seconds, both report the same
  number for every user and window at every later instant.
\<close>
theorem redis_agrees_with_memory:
  assumes "int (length evs) < 2 ^ 63" and "sorted (map event_time evs)" and "\<forall>ev \<in> set evs. whole_seconds (event_window ev)"
    and "\<forall>ev \<in> set evs. event_time ev \<le> t"
  shows "sint (fst (redis_Get c no_faults u w t (counter_run (redis_ops c no_faults) evs Map.empty)))
    = sint (fst (memory_Get u w t (counter_run memory_counter_ops evs NewMemoryCounter)))"
proof (cases evs)
  case Nil
  then show ?thesis by (simp add: counter_run_def redis_Get_def query_def redis_live_def memory_Get_def NewMemoryCounter_def)
next
  case (Cons ev evs')
  let ?T = "event_time ev"
  have "mr.agree c ?T NewMemoryCounter Map.empty"
    unfolding mr.agree_def by (simp add: redis_ops_def redis_Get_def query_def redis_live_def memory_Get_def NewMemoryCounter_def)
  from mr.agree_run [OF this memory_within_New [of 0] redis_within_empty, of evs] assms Cons
  have "mr.agree c (last (?T # map event_time evs)) (counter_run memory_counter_ops evs NewMemoryCounter) (counter_run (redis_ops c no_faults) evs Map.empty)"
    by simp
  moreover have "last (?T # map event_time evs) \<le> t"
    using assms(4) Cons by (auto simp: last_map)
  ultimately have "sint (fst (CounterGet memory_counter_ops u w t (counter_run memory_counter_ops evs NewMemoryCounter)))
    = sint (fst (CounterGet (redis_ops c no_faults) u w t (counter_run (redis_ops c no_faults) evs Map.empty)))"
    unfolding mr.agree_def by blast
  moreover have "CounterGet (redis_ops c no_faults) = redis_Get c no_faults" by (simp add: redis_ops_def)
  ultimately show ?thesis by simp
qed

text \<open>
  With failures a counter of Redis may outlive its window: when the increment is made and setting its expiry is
  refused, the key has been counted up and never expires, however late it is read; and a rollback on a
  counter that is gone leaves a key behind that has no expiry.
\<close>
theorem redis_key_without_expiry:
  assumes "s (redis_k c u w) = None" and "f 0 = NoFault" and "f 1 = Refused err"
  shows "redis_Get c no_faults u w t (snd (redis_Increment c f u w now s)) = (1, None)
    \<and> rk_expire (the (snd (redis_Rollback c no_faults u w now s) (redis_k c u w))) = None"
proof -
  have a: "Atoi (Itoa 1) = (1, None)" by (rule Atoi_Itoa) simp_all
  have "redis_live now s (redis_k c u w) = None" using assms(1) by (simp add: redis_live_def)
  with assms a show ?thesis
    by (simp add: redis_Increment_def redis_Rollback_def rollback_script_def redis_add_def exec_def query_def redis_Get_def redis_live_def)
qed

section \<open>Instances\<close>

theorem redis_agrees_with_memory_witness:
  "sint (fst (redis_Get (NewRedisCounter []) no_faults ''u'' WindowDay 9
      (counter_run (redis_ops (NewRedisCounter []) no_faults) [Inc ''u'' WindowDay 1, Dec ''v'' WindowHour 2] Map.empty)))
   = sint (fst (memory_Get ''u'' WindowDay 9 (counter_run memory_counter_ops [Inc ''u'' WindowDay 1, Dec ''v'' WindowHour 2] NewMemoryCounter)))"
  by (rule redis_agrees_with_memory) (simp_all add: whole_seconds_def WindowDay_def WindowHour_def)

theorem redis_key_without_expiry_witness:
  "redis_Get (NewRedisCounter []) no_faults ''u'' WindowDay 100000000000000000
     (snd (redis_Increment (NewRedisCounter []) (\<lambda>i. if i = 0 then NoFault else Refused (ErrorNew ''timeout'')) ''u'' WindowDay 0 Map.empty)) = (1, None)"
  using redis_key_without_expiry [of Map.empty "NewRedisCounter []" "''u''" WindowDay
      "\<lambda>i. if i = 0 then NoFault else Refused (ErrorNew ''timeout'')" "ErrorNew ''timeout''" 100000000000000000 0] by simp

end
