(* ===== verification/Spec2Isabelle.thy ===== *)
theory Spec2Isabelle
  imports Production Process Redis_Counter
begin

text \<open>
  \<^bold>\<open>Verification of the policy and risk engine.\<close>

  The program decides whether a payment may proceed. A client sends an evaluation request over HTTP or gRPC; the
  service checks the session, the destination whitelist, a velocity counter, amount caps and a Rego policy, answers
  allow, deny or manual review, signs and records the decision, and parks manual reviews for an operator. Operators
  maintain the whitelist, resolve reviews and publish policy bundles. The stores are in memory (development) or on
  PostgreSQL; bundles are downloaded and swapped in while requests are served.

  \<^bold>\<open>Theories and sources.\<close>
  \<^item> \<open>Go_Prelude\<close>, \<open>Go_Strconv\<close>, \<open>Go_Float\<close>: what the sources use of Go: byte strings, errors with wrapping and
    sentinels, 64- and 32-bit words, times, \<^verbatim>\<open>strings\<close> and \<^verbatim>\<open>strconv\<close> functions, and binary64 numbers with
    NaN, infinities and rounding to nearest even.
  \<^item> \<open>Caps\<close> (\<^verbatim>\<open>internal/caps\<close>): rule matching, effective caps, cap decisions, 2FA thresholds, FX conversion.
  \<^item> \<open>Velocity\<close> and \<open>Redis_Counter\<close> (\<^verbatim>\<open>internal/velocity\<close>): the counter interface, the in-memory counter and the
    Redis counter with the commands it sends.
  \<^item> \<open>Whitelist\<close> (\<^verbatim>\<open>internal/whitelist\<close>), \<open>Review\<close> (\<^verbatim>\<open>internal/review\<close>), \<open>Audit_Log\<close> (\<^verbatim>\<open>internal/audit\<close>): the
    services, their store interfaces and in-memory stores; the webhook notifier; signatures, the emission queue with
    its worker, the Kafka sink.
  \<^item> \<open>Engine\<close> and \<open>Background\<close> (\<^verbatim>\<open>internal/engine\<close>): bundles and their hashes, the OPA engine with its cached compiler, the mapping of
    Rego results to decisions, download, poller and hot reloader, and the goroutines of the last two.
  \<^item> \<open>Metrics\<close> (\<^verbatim>\<open>internal/metrics\<close>) and \<open>Evaluate\<close> (\<^verbatim>\<open>internal/evaluate\<close>): the evaluation path over all of the above.
  \<^item> \<open>Auth\<close>, \<open>Api\<close>, \<open>Grpc_Server\<close> (\<^verbatim>\<open>internal/api\<close>): bearer tokens, middleware, routes and handlers, publishing of
    rules, the gRPC adapter and the TLS configuration of its server.
  \<^item> \<open>Remote\<close>, \<open>Postgres\<close>, \<open>Pg_Runs\<close>, \<open>Pg_Service\<close>, \<open>Pg_Versions\<close>, \<open>Db_Connect\<close> (\<^verbatim>\<open>internal/db\<close>, \<^verbatim>\<open>migrations\<close>,
    \<^verbatim>\<open>cmd/migrate\<close>): statements that may be refused or whose reply may be lost, the tables with their constraints, the
    three stores and the activation of policy versions, runs of the service on one database and the evaluation path on
    it, opening and migrating the database.
  \<^item> \<open>Wiring\<close>, \<open>Production\<close>, \<open>Process\<close> (\<^verbatim>\<open>cmd/policy-engine\<close>): how the process builds its services, servers and
    background task from the environment; the evaluation service of a production process on its database; the life of
    the process from serving to its exit, with the requests in flight, the task and the audit worker interleaved.
  \<^item> This theory: sequences of HTTP requests to one service.

  \<^bold>\<open>State and interfaces.\<close> A Go struct is a record, a method a function that returns the updated state, an error
  result a value, a nil dereference the outcome \<open>Panic\<close>. An interface of the sources is a record of operations
  (\<open>counter_ops\<close>, \<open>wl_store_ops\<close>, \<open>review_store_ops\<close>, \<open>audit_store_ops\<close>, \<open>audit_sink_ops\<close>, \<open>engine_iface\<close>), and
  its contract a locale: \<open>velocity_counter\<close> and \<open>counter_pair\<close>, \<open>whitelist_store\<close>, \<open>review_store\<close>, \<open>audit_store\<close>. The
  locales are interpreted on the in-memory implementations (\<open>mc\<close>, \<open>wm\<close>, \<open>rm\<close>, \<open>am\<close>), \<open>velocity_counter\<close> also on Redis
  (\<open>rdc\<close>, and \<open>mr\<close> for the pair of both), \<open>whitelist_store\<close> also on PostgreSQL (\<open>pgw\<close>). The PostgreSQL review and
  audit stores do not satisfy the contracts of the in-memory ones (a review may be stored twice, and a decision is not
  read back as it was written), which \<open>Pg_Runs\<close> and \<open>Pg_Versions\<close> prove; there the operations of all stores are
  steps of one transition system on the shared database.

  \<^bold>\<open>What is shown.\<close>
  \<^item> The evaluation path: allow implies that every check passed; an engine error fails safe; a valid request is always
    answered; the staged code is a pure verdict followed by one finalisation; an answered request is recorded and, if
    it needs review, parked; the effect on the counters; which bundle an answer names, and the race that breaks this.
  \<^item> The engine: precedence of decisions, isolation of evaluations from swaps, consistency after any reload rounds.
  \<^item> The audit log: durability, accounting of every emission over all interleavings, publication of queued records,
    signatures, and what closing abandons.
  \<^item> The stores: rollbacks and bounds of counters, agreement of the Redis counter with the in-memory one over every
    history of whole-second windows, exactness of the whitelist in memory and on PostgreSQL, finality of resolutions,
    integrity and history of the database tables under faults, what an answered evaluation leaves in the database,
    round trips of versions and decisions.
  \<^item> The API and the process: changes need an accepted token with an admin scope, mutual TLS, which process starts in
    production, the engine it runs, termination of the wait for the database; and, below, that an allow answer in any
    sequence of requests goes back to an authorised addition and an authorised verification of the destination.
  \<^item> The whole in production: what is known of the database and of the answer when a process that was started on a
    database of earlier runs answers a request; that the engine of the reloader stays consistent through the life of the
    process; what a clean exit guarantees, and that the shutdown cannot get stuck.
  \<^item> Where the code departs from its comments, the theorem states what it does, and the findings of the manifest say
    how the two differ.

  \<^bold>\<open>Parameters.\<close> Code outside the repository is an argument with what is relied on as hypotheses: OPA (compiling and
  evaluating modules), SHA-256, Ed25519, JSON, YAML and JWT decoding, HTTP, Kafka, the migration library, certificate
  handling, map iteration orders, clocks and identifiers. PostgreSQL and Redis are modelled by the documented effect of
  the statements used; each statement may fail before or after taking effect, which includes texts that the server refuses.

  \<^bold>\<open>Loops and bounds.\<close> Loops are structural recursions or functions with a termination measure, except the wait for
  the database, which is a partial function with a proof that it returns when the clock advances. The only fuel is in
  \<^verbatim>\<open>strings.TrimSpace\<close>, where the length of the string is shown to be enough (\<open>strip_fuel_none\<close>).
  Tickers and goroutines are explicit events: rounds of the reloader, rounds of the audit worker, reads
  of the engine between which it may be swapped, and in \<open>Process\<close> the steps of one relation on the running process.

  \<^bold>\<open>Not modelled.\<close> The generated protobuf code and the gRPC and HTTP transports; the byte encoding of answers;
  contexts and their cancellation, except in the wait for the database and in the shutdown, where the two servers are
  given by the documented contracts of \<^verbatim>\<open>GracefulStop\<close> and \<^verbatim>\<open>Shutdown\<close>; SQL transactions of several processes at the same time (each operation is atomic or undone, and operations
  interleave); log output. The handlers of \<open>serve\<close> keep the stores apart, so a
  service on PostgreSQL is given by \<open>pg_Evaluate\<close> and the steps of \<open>Pg_Runs\<close> instead.
\<close>

section \<open>Sequences of requests\<close>

definition serve_all where
  "serve_all s reqs st = fold (\<lambda>(cc, r) st. snd (serve s cc r st)) reqs st"

text \<open>What a request asks of the whitelist, and whether the middleware lets it through.\<close>

definition wl_request where
  "wl_request s cc r =
     (case mux_match (hq_method r) (hq_segments r) of
        Some AddWhitelist \<Rightarrow>
          (case decodeJSON (js_add (as_json s)) r of
             Some q \<Rightarrow> if aw_UserID q = [] then None else Some (WLAdd (cc_whitelist cc) (aw_UserID q) (aw_Chain q) (aw_Address q) (aw_Label q))
           | None \<Rightarrow> None)
      | Some (VerifyWhitelist u) \<Rightarrow>
          (case decodeJSON (js_verify (as_json s)) r of
             Some q \<Rightarrow> Some (WLVerify (cc_whitelist cc) u (vw_Chain q) (vw_Address q))
           | None \<Rightarrow> None)
      | _ \<Rightarrow> None)"

definition admitted where
  "admitted s cc r =
     (case as_auth s of
        None \<Rightarrow> True
      | Some cfg \<Rightarrow>
          if \<not> auth_Enabled (as_auth s) \<or> \<not> isAdminPath (hq_method r) (url_path r) then True
          else (case validateBearer (as_jwt s) cfg (cc_auth cc) (hq_auth r) of
                  Inl err \<Rightarrow> False
                | Inr cl \<Rightarrow> HasAnyScope cl (AdminScopes cfg)))"

text \<open>The request carries an accepted token with an admin scope, if tokens are required at all.\<close>

definition authorised where
  "authorised s cc r \<longleftrightarrow>
     (\<forall>cfg. as_auth s = Some cfg \<and> auth_Enabled (Some cfg) \<longrightarrow>
        (\<exists>cl. validateBearer (as_jwt s) cfg (cc_auth cc) (hq_auth r) = Inr cl \<and> HasAnyScope cl (AdminScopes cfg)))"

lemma serve_admitted: "snd (serve s cc r st) = (if admitted s cc r then snd (dispatch s cc r st) else st)"
  by (simp add: serve_def admitted_def split: option.splits sum.splits)

lemma admitted_wl_request:
  assumes "admitted s cc r" and "wl_request s cc r = Some ev"
  shows "authorised s cc r"
proof -
  from assms(2) obtain rt where rt: "mux_match (hq_method r) (hq_segments r) = Some rt" and "rt = AddWhitelist \<or> (\<exists>u. rt = VerifyWhitelist u)"
    by (auto simp: wl_request_def split: option.splits route.splits)
  then have "isAdminPath (hq_method r) (url_path r)" by (intro mutating_routes_admin [OF rt]) auto
  with assms(1) show ?thesis unfolding authorised_def admitted_def
    by (auto split: sum.splits) (metis Inl_Inr_False sumE)
qed

lemma finalize_whitelist: "ev_whitelist (snd (finalize sv ec ver dec reasons rules score aq st)) = ev_whitelist st"
  by (simp add: finalize_def Let_def split: sum.splits option.splits prod.splits)

lemma eval_Evaluate_whitelist: "ev_whitelist (snd (eval_Evaluate sv ec req st)) = ev_whitelist st"
proof -
  have "ev_whitelist (snd (evaluate_body sv ec req st)) = ev_whitelist st"
  proof (cases "sv_caps sv")
    case None
    then show ?thesis by (simp add: evaluate_body_def)
  next
    case (Some caps)
    then show ?thesis by (simp add: evaluate_body_verdict act_on_def finalize_whitelist split: option.splits)
  qed
  then show ?thesis by (cases "evaluate_body sv ec req st") (simp add: eval_Evaluate_def split: option.splits)
qed

lemma evaluateHandler_whitelist: "ev_whitelist (ap_eval (snd (evaluateHandler s cc r st))) = ev_whitelist (ap_eval st)"
proof (cases "decodeJSON (js_evaluate (as_json s)) r")
  case (Some req)
  let ?out = "eval_Evaluate ((as_eval s)\<lparr>sv_engine := live_engine (as_opa s) (ap_engine st)\<rparr>) (cc_eval cc) (req\<lparr>rq_SessionValid := True\<rparr>) (ap_eval st)"
  have "ev_whitelist (snd ?out) = ev_whitelist (ap_eval st)" by (rule eval_Evaluate_whitelist)
  moreover have "snd (evaluateHandler s cc r st) \<in> {st, st\<lparr>ap_eval := snd ?out\<rparr>}"
    unfolding evaluateHandler_def Some option.case
    by (auto split: option.splits prod.splits eval_outcome.splits)
  ultimately show ?thesis by auto
qed (simp add: evaluateHandler_def)

lemma resolveReviewHandler_whitelist: "ev_whitelist (ap_eval (snd (resolveReviewHandler s cc r d st))) = ev_whitelist (ap_eval st)"
  by (simp add: resolveReviewHandler_def split: option.splits prod.splits)

lemma publishRulesHandler_whitelist: "ev_whitelist (ap_eval (snd (publishRulesHandler s r st))) = ev_whitelist (ap_eval st)"
  by (simp add: publishRulesHandler_def Let_def split: option.splits prod.splits sum.splits)

lemma dispatch_whitelist:
  "ev_whitelist (ap_eval (snd (dispatch s cc r st))) =
     (case wl_request s cc r of None \<Rightarrow> ev_whitelist (ap_eval st) | Some ev \<Rightarrow> wl_step (sv_whitelist (as_eval s)) ev (ev_whitelist (ap_eval st)))"
proof (cases "mux_match (hq_method r) (hq_segments r)")
  case None
  then show ?thesis by (simp add: dispatch_def wl_request_def)
next
  case (Some rt)
  then show ?thesis
    by (cases rt)
      (simp_all add: dispatch_def wl_request_def read_only_handlers evaluateHandler_whitelist resolveReviewHandler_whitelist
        publishRulesHandler_whitelist addWhitelistHandler_def verifyWhitelistHandler_def split: option.splits prod.splits)
qed

text \<open>After any requests the whitelist is the result of the admitted ones that concern it, in their order.\<close>

definition wl_effect where
  "wl_effect s = (\<lambda>(cc, r). if admitted s cc r then wl_request s cc r else None)"

definition wl_log where
  "wl_log s reqs = List.map_filter (wl_effect s) reqs"

lemma serve_all_whitelist:
  "ev_whitelist (ap_eval (serve_all s reqs st)) = wl_run (sv_whitelist (as_eval s)) (wl_log s reqs) (ev_whitelist (ap_eval st))"
proof (induction reqs arbitrary: st)
  case Nil
  then show ?case by (simp add: serve_all_def wl_log_def wl_run_def List.map_filter_simps)
next
  case (Cons q reqs)
  obtain cc r where q: "q = (cc, r)" by (cases q)
  have "serve_all s (q # reqs) st = serve_all s reqs (snd (serve s cc r st))" by (simp add: serve_all_def q)
  with Cons.IH [of "snd (serve s cc r st)"] show ?case
    by (simp add: q wl_log_def wl_effect_def List.map_filter_simps wl_run_def serve_admitted dispatch_whitelist split: option.splits)
qed

lemma map_filter_split:
  assumes "List.map_filter f rs = xs @ y # ys"
  obtains rs1 r rs2 where "rs = rs1 @ r # rs2" and "f r = Some y" and "List.map_filter f rs2 = ys"
  using assms
proof (induction rs arbitrary: xs thesis)
  case Nil
  then show ?case by (simp add: List.map_filter_simps)
next
  case (Cons a rs)
  show ?case
  proof (cases "f a")
    case None
    with Cons.prems(2) have "List.map_filter f rs = xs @ y # ys" by (simp add: List.map_filter_simps)
    from Cons.IH [OF _ this] Cons.prems(1) show ?thesis by (metis append_Cons)
  next
    case (Some b)
    show ?thesis
    proof (cases xs)
      case Nil
      with Some Cons.prems show ?thesis by (intro Cons.prems(1) [of "[]" a rs]) (simp_all add: List.map_filter_simps)
    next
      case (Cons x xs')
      with Some Cons.prems(2) have "List.map_filter f rs = xs' @ y # ys" by (simp add: List.map_filter_simps)
      from Cons.IH [OF _ this] Cons.prems(1) show ?thesis by (metis append_Cons)
    qed
  qed
qed

lemma serve_evaluate:
  assumes "serve s cc r st = (Some ans, st')" and "an_body ans = BEvaluate resp"
  obtains req ev where "decodeJSON (js_evaluate (as_json s)) r = Some req"
    and "eval_Evaluate ((as_eval s)\<lparr>sv_engine := live_engine (as_opa s) (ap_engine st)\<rparr>) (cc_eval cc) (req\<lparr>rq_SessionValid := True\<rparr>) (ap_eval st)
      = (Return resp None, ev)"
proof -
  note writers = writeJSON_def writeError_def writeAppError_def
  from assms have disp: "dispatch s cc r st = (Some ans, st')"
    by (auto simp: serve_def writers split: option.splits sum.splits if_splits)
  then have "evaluateHandler s cc r st = (Some ans, st')"
  proof (cases "mux_match (hq_method r) (hq_segments r)")
    case None
    with disp assms(2) show ?thesis by (auto simp: dispatch_def)
  next
    case (Some rt)
    show ?thesis
    proof (cases rt)
      case EvaluateRoute
      with Some disp show ?thesis by (simp add: dispatch_def)
    next
      case PublishRules
      with Some disp assms(2) show ?thesis
        by (auto simp: dispatch_def publishRulesHandler_def writers Let_def split: option.splits sum.splits prod.splits if_splits)
    next
      case AddWhitelist
      with Some disp assms(2) show ?thesis
        by (auto simp: dispatch_def addWhitelistHandler_def writers split: option.splits prod.splits if_splits)
    next
      case (ResolveReview d)
      with Some disp assms(2) show ?thesis
        by (auto simp: dispatch_def resolveReviewHandler_def writers split: option.splits prod.splits if_splits)
    qed (use Some disp assms(2) in \<open>auto simp: dispatch_def listWhitelistHandler_def verifyWhitelistHandler_def listReviewHandler_def
           listRulesHandler_def getRuleHandler_def rules_answer_def writers Let_def split: option.splits sum.splits prod.splits if_splits\<close>)
  qed
  with assms(2) that show thesis
    by (auto simp: evaluateHandler_def writers split: option.splits sum.splits prod.splits eval_outcome.splits if_splits)
qed

text \<open>
  C1: Over a whole sequence of requests to a service with the in-memory whitelist: an evaluation is answered with
  allow only if earlier in the sequence one request added the destination under the key of this user, chain and
  address and a later one verified it, and each of the two carried an accepted token with an admin scope when
  authentication is enabled.
\<close>
theorem allow_after_authorised_requests:
  assumes "sv_whitelist (as_eval s) = wl_memory_ops order" and "ev_whitelist (ap_eval st) = wl_NewMemoryStore"
    and "serve s cc r (serve_all s reqs st) = (Some ans, st')" and "an_body ans = BEvaluate resp" and "rs_Decision resp = ''allow''"
  shows "\<exists>req xs cc1 r1 ys cc2 r2 zs now u c a l now' u' c' a'. decodeJSON (js_evaluate (as_json s)) r = Some req
    \<and> reqs = xs @ (cc1, r1) # ys @ (cc2, r2) # zs
    \<and> wl_request s cc1 r1 = Some (WLAdd now u c a l) \<and> authorised s cc1 r1
    \<and> wl_request s cc2 r2 = Some (WLVerify now' u' c' a') \<and> authorised s cc2 r2
    \<and> wl_key u c a = wl_key (rq_UserID req) (rq_DestChain req) (rq_DestAddress req)
    \<and> wl_key u' c' a' = wl_key (rq_UserID req) (rq_DestChain req) (rq_DestAddress req)"
proof -
  obtain req ev where req: "decodeJSON (js_evaluate (as_json s)) r = Some req"
    and run: "eval_Evaluate ((as_eval s)\<lparr>sv_engine := live_engine (as_opa s) (ap_engine (serve_all s reqs st))\<rparr>) (cc_eval cc)
        (req\<lparr>rq_SessionValid := True\<rparr>) (ap_eval (serve_all s reqs st)) = (Return resp None, ev)"
    by (rule serve_evaluate [OF assms(3,4)])
  have "IsWhitelisted (wl_memory_ops order) (rq_UserID req) (rq_DestChain req) (rq_DestAddress req) (wl_run (wl_memory_ops order) (wl_log s reqs) wl_NewMemoryStore)"
    using allow_checks [OF run assms(5)] by (auto simp: assms(1,2) serve_all_whitelist)
  from wl_memory_verified_by_run [OF this] obtain es1 es2 es3 now u c a l now' u' c' a' where
    log: "wl_log s reqs = es1 @ WLAdd now u c a l # es2 @ WLVerify now' u' c' a' # es3"
    and keys: "wl_key u c a = wl_key (rq_UserID req) (rq_DestChain req) (rq_DestAddress req)"
      "wl_key u' c' a' = wl_key (rq_UserID req) (rq_DestChain req) (rq_DestAddress req)" by blast
  obtain xs q1 rest where q1: "reqs = xs @ q1 # rest" "wl_effect s q1 = Some (WLAdd now u c a l)"
    and log2: "wl_log s rest = es2 @ WLVerify now' u' c' a' # es3"
    using log unfolding wl_log_def by (rule map_filter_split)
  obtain ys q2 zs where q2: "rest = ys @ q2 # zs" "wl_effect s q2 = Some (WLVerify now' u' c' a')"
    using log2 unfolding wl_log_def by (rule map_filter_split)
  obtain cc1 r1 cc2 r2 where p: "q1 = (cc1, r1)" "q2 = (cc2, r2)" by (cases q1, cases q2)
  from q1(2) q2(2) p have "admitted s cc1 r1" "wl_request s cc1 r1 = Some (WLAdd now u c a l)"
    "admitted s cc2 r2" "wl_request s cc2 r2 = Some (WLVerify now' u' c' a')"
    by (auto simp: wl_effect_def split: if_splits)
  note asked = this
  have reqs: "reqs = xs @ (cc1, r1) # ys @ (cc2, r2) # zs" using q1(1) q2(1) p by simp
  show ?thesis
    using req reqs keys asked(2,4) admitted_wl_request [OF asked(1,2)] admitted_wl_request [OF asked(3,4)] by blast
qed

section \<open>Instance\<close>

text \<open>A service with authentication; one request adds an address, one verifies it, one evaluates a transfer to it.\<close>

definition demo_flow_json :: api_json where
  "demo_flow_json = \<lparr>js_evaluate = (\<lambda>_. Some demo_req),
     js_add = (\<lambda>_. Some \<lparr>aw_UserID = ''u'', aw_Chain = ''eth'', aw_Address = ''0x1'', aw_Label = []\<rparr>),
     js_verify = (\<lambda>_. Some \<lparr>vw_Chain = ''eth'', vw_Address = ''0x1''\<rparr>), js_resolve = (\<lambda>_. None)\<rparr>"

abbreviation (input) "demo_flow \<equiv> (demo_api (Some demo_auth))\<lparr>as_json := demo_flow_json\<rparr>"

abbreviation (input) "flow_add \<equiv> (demo_cc\<lparr>cc_whitelist := 1\<rparr>, demo_http_req [''v1'', ''policy'', ''whitelist''] ''{}'')"

abbreviation (input) "flow_verify \<equiv> (demo_cc\<lparr>cc_whitelist := 2\<rparr>, demo_http_req [''v1'', ''policy'', ''whitelist'', ''u'', ''verify''] ''{}'')"

abbreviation (input) "flow_evaluate \<equiv> demo_http_req [''v1'', ''policy'', ''evaluate''] ''{}''"

lemma demo_admitted:
  "admitted demo_flow (demo_cc\<lparr>cc_whitelist := t\<rparr>) (demo_http_req segs b)" "admitted demo_flow demo_cc (demo_http_req segs b)"
proof -
  have scope: "HasAnyScope (demo_claims ''idp'') (AdminScopes demo_auth)"
    by (simp add: HasAnyScope_def demo_claims_def demo_auth_def)
  show "admitted demo_flow (demo_cc\<lparr>cc_whitelist := t\<rparr>) (demo_http_req segs b)" "admitted demo_flow demo_cc (demo_http_req segs b)"
    using demo_bearer scope by (simp_all add: admitted_def demo_api_def demo_cc_def demo_http_req_def)
qed

lemma demo_flow_state:
  "ap_eval (serve_all demo_flow [flow_add, flow_verify] demo_api_st) = demo_st"
  "ap_engine (serve_all demo_flow [flow_add, flow_verify] demo_api_st) = Some (demo_engine ''allow'')"
proof -
  have add: "dispatch demo_flow (fst flow_add) (snd flow_add) st = addWhitelistHandler demo_flow (fst flow_add) (snd flow_add) st" for st
    by (simp add: dispatch_def mux_match_def demo_http_req_def)
  have ver: "dispatch demo_flow (fst flow_verify) (snd flow_verify) st = verifyWhitelistHandler demo_flow (fst flow_verify) (snd flow_verify) ''u'' st" for st
    by (simp add: dispatch_def mux_match_def demo_http_req_def)
  have all: "serve_all demo_flow [flow_add, flow_verify] demo_api_st =
      snd (verifyWhitelistHandler demo_flow (fst flow_verify) (snd flow_verify) ''u''
        (snd (addWhitelistHandler demo_flow (fst flow_add) (snd flow_add) demo_api_st)))"
    using add [of demo_api_st] ver [of "snd (addWhitelistHandler demo_flow (fst flow_add) (snd flow_add) demo_api_st)"]
    by (simp add: serve_all_def serve_admitted demo_admitted)
  show "ap_eval (serve_all demo_flow [flow_add, flow_verify] demo_api_st) = demo_st"
    "ap_engine (serve_all demo_flow [flow_add, flow_verify] demo_api_st) = Some (demo_engine ''allow'')"
    unfolding all
    by (simp_all add: addWhitelistHandler_def verifyWhitelistHandler_def decodeJSON_def demo_http_req_def demo_api_def demo_flow_json_def
        demo_sv_def demo_api_st_def demo_cc_def demo_st_def wl_run_def split: prod.splits option.splits)
qed

lemma evaluateHandler_answers:
  assumes "decodeJSON (js_evaluate (as_json s)) r = Some req"
    and "\<And>cfg. as_auth s = Some cfg \<Longrightarrow> \<exists>cl. validateBearer (as_jwt s) cfg (cc_auth cc) (hq_auth r) = Inr cl"
    and "eval_Evaluate ((as_eval s)\<lparr>sv_engine := live_engine (as_opa s) (ap_engine st)\<rparr>) (cc_eval cc) (req\<lparr>rq_SessionValid := True\<rparr>) (ap_eval st)
      = (Return resp None, ev)"
  shows "evaluateHandler s cc r st = (Some (writeJSON 200 (BEvaluate resp)), st\<lparr>ap_eval := ev\<rparr>)"
  using assms by (cases "as_auth s") (auto simp: evaluateHandler_def)

lemma demo_flow_answer:
  obtains ans resp st' where "serve demo_flow demo_cc flow_evaluate (serve_all demo_flow [flow_add, flow_verify] demo_api_st) = (Some ans, st')"
    and "an_body ans = BEvaluate resp" and "rs_Decision resp = ''allow''"
proof -
  obtain resp ev where run: "eval_Evaluate (demo_sv allow_iface) demo_ec demo_req demo_st = (Return resp None, ev)"
    and dec: "rs_Decision resp = ''allow''" by (rule demo_allow_run)
  let ?st = "serve_all demo_flow [flow_add, flow_verify] demo_api_st"
  have eng: "(as_eval demo_flow)\<lparr>sv_engine := live_engine (as_opa demo_flow) (ap_engine ?st)\<rparr> = demo_sv allow_iface"
    unfolding demo_flow_state by (simp add: demo_api_def live_engine_def demo_sv_def)
  have req: "decodeJSON (js_evaluate (as_json demo_flow)) flow_evaluate = Some demo_req" "demo_req\<lparr>rq_SessionValid := True\<rparr> = demo_req"
    by (simp_all add: decodeJSON_def demo_http_req_def demo_flow_json_def demo_req_def)
  have auth: "as_auth demo_flow = Some demo_auth" "validateBearer (as_jwt demo_flow) demo_auth (cc_auth demo_cc) (hq_auth flow_evaluate) = Inr (demo_claims ''idp'')"
    using demo_bearer by (simp_all add: demo_api_def demo_cc_def demo_http_req_def)
  have cc: "cc_eval demo_cc = demo_ec" by (simp add: demo_cc_def)
  have hd: "evaluateHandler demo_flow demo_cc flow_evaluate ?st = (Some (writeJSON 200 (BEvaluate resp)), ?st\<lparr>ap_eval := ev\<rparr>)"
    by (rule evaluateHandler_answers [OF req(1)]) (use auth run in \<open>simp_all only: eng cc req(2) demo_flow_state(1) option.inject, blast?\<close>)
  have noadmin: "\<not> isAdminPath (hq_method flow_evaluate) (url_path flow_evaluate)"
    by (simp add: demo_http_req_def isAdminPath_def url_path_def HasPrefix_def)
  have "dispatch demo_flow demo_cc flow_evaluate ?st = evaluateHandler demo_flow demo_cc flow_evaluate ?st"
    by (simp add: dispatch_def mux_match_def demo_http_req_def)
  moreover have "serve demo_flow demo_cc flow_evaluate ?st = dispatch demo_flow demo_cc flow_evaluate ?st"
    using noadmin by (simp add: serve_def auth(1))
  ultimately show ?thesis using hd dec that by (simp add: writeJSON_def)
qed

theorem allow_after_authorised_requests_witness:
  "\<exists>xs cc1 r1 ys cc2 r2 zs. [flow_add, flow_verify] = xs @ (cc1, r1) # ys @ (cc2, r2) # zs
     \<and> authorised demo_flow cc1 r1 \<and> authorised demo_flow cc2 r2"
proof -
  obtain ans resp st' where run: "serve demo_flow demo_cc flow_evaluate (serve_all demo_flow [flow_add, flow_verify] demo_api_st) = (Some ans, st')"
    and body: "an_body ans = BEvaluate resp" and dec: "rs_Decision resp = ''allow''" by (rule demo_flow_answer)
  have "sv_whitelist (as_eval demo_flow) = wl_memory_ops (\<lambda>_. [])" "ev_whitelist (ap_eval demo_api_st) = wl_NewMemoryStore"
    by (simp_all add: demo_api_def demo_sv_def demo_api_st_def)
  from allow_after_authorised_requests [OF this run body dec] show ?thesis by blast
qed

end
